theory Spec2Isabelle
  imports Complex_Main "HOL-Library.AList" "HOL-Library.Sublist" "HOL-Library.Multiset"
begin

section \<open>Literal data of the notebook\<close>

text \<open>
  The notebook \<^verbatim>\<open>sparkml_serving_emr_mleap_abalone.ipynb\<close> is a straight-line script.
  Its data are Python literals: a Spark \<^verbatim>\<open>StructType\<close>, the stages of a Spark ML
  \<^verbatim>\<open>Pipeline\<close>, and the dictionaries sent to the serving container. Dictionaries and
  lists are JSON values; a dictionary keeps the order in which its keys are written. A float
  literal is represented by the rational number its decimal text denotes.
\<close>

datatype json =
    JString string
  | JNumber rat
  | JArray "json list"
  | JObject "(string \<times> json) list"

text \<open>Python's \<^verbatim>\<open>d[k]\<close> on a dictionary and the elements of a list; \<open>None\<close> where Python
  raises \<^verbatim>\<open>KeyError\<close> or \<^verbatim>\<open>TypeError\<close>.\<close>

fun get_item :: "json \<Rightarrow> string \<Rightarrow> json option" where
  "get_item (JObject kvs) k = map_of kvs k"
| "get_item _ k = None"

fun elements :: "json \<Rightarrow> json list option" where
  "elements (JArray xs) = Some xs"
| "elements _ = None"

subsection \<open>The schema of the CSV file (first use of the variable \<^verbatim>\<open>schema\<close>)\<close>

datatype data_type = StringType | DoubleType

datatype struct_field = StructField string data_type bool

datatype struct_type = StructType "struct_field list"

fun field_name :: "struct_field \<Rightarrow> string" where
  "field_name (StructField n t nullable) = n"

fun field_type :: "struct_field \<Rightarrow> data_type" where
  "field_type (StructField n t nullable) = t"

fun struct_fields :: "struct_type \<Rightarrow> struct_field list" where
  "struct_fields (StructType fs) = fs"

text \<open>The notebook assigns \<^verbatim>\<open>schema\<close> twice: a \<^verbatim>\<open>StructType\<close> in the training segment, a
  dictionary in the hosting segment. The first is \<open>schema_struct\<close> here, the second \<open>schema\<close>.\<close>

definition schema_struct :: struct_type where
  "schema_struct = StructType
     [ StructField ''sex'' StringType True,
       StructField ''length'' DoubleType True,
       StructField ''diameter'' DoubleType True,
       StructField ''height'' DoubleType True,
       StructField ''whole_weight'' DoubleType True,
       StructField ''shucked_weight'' DoubleType True,
       StructField ''viscera_weight'' DoubleType True,
       StructField ''shell_weight'' DoubleType True,
       StructField ''rings'' DoubleType True ]"

subsection \<open>Feature transformers, the regressor and the pipeline\<close>

datatype stage =
    StringIndexer string string
  | OneHotEncoderEstimator "string list" "string list"
  | VectorAssembler "string list" string
  | RandomForestRegressor string string nat nat

datatype pipeline = Pipeline "stage list"

fun stages :: "pipeline \<Rightarrow> stage list" where
  "stages (Pipeline ss) = ss"

definition sex_indexer :: stage where
  "sex_indexer = StringIndexer ''sex'' ''indexed_sex''"

definition sex_encoder :: stage where
  "sex_encoder = OneHotEncoderEstimator [''indexed_sex''] [''sex_vec'']"

definition assembler :: stage where
  "assembler = VectorAssembler
     [ ''sex_vec'', ''length'', ''diameter'', ''height'', ''whole_weight'',
       ''shucked_weight'', ''viscera_weight'', ''shell_weight'' ]
     ''features''"

definition rf :: stage where
  "rf = RandomForestRegressor ''rings'' ''features'' 6 18"

definition pipeline :: pipeline where
  "pipeline = Pipeline [sex_indexer, sex_encoder, assembler, rf]"

text \<open>The columns a stage reads as features, the column it reads as label, and the columns
  it adds to the dataframe (a regressor adds its default \<^verbatim>\<open>prediction\<close> column).\<close>

fun input_cols :: "stage \<Rightarrow> string list" where
  "input_cols (StringIndexer i out) = [i]"
| "input_cols (OneHotEncoderEstimator ins outs) = ins"
| "input_cols (VectorAssembler ins out) = ins"
| "input_cols (RandomForestRegressor label feats depth trees) = [feats]"

fun label_cols :: "stage \<Rightarrow> string list" where
  "label_cols (RandomForestRegressor label feats depth trees) = [label]"
| "label_cols _ = []"

fun output_cols :: "stage \<Rightarrow> string list" where
  "output_cols (StringIndexer i out) = [out]"
| "output_cols (OneHotEncoderEstimator ins outs) = outs"
| "output_cols (VectorAssembler ins out) = [out]"
| "output_cols (RandomForestRegressor label feats depth trees) = [''prediction'']"

text \<open>The stages are run in list order: each stage must find what it reads among the
  columns of the dataframe and the outputs of the stages before it.\<close>

fun columns_flow :: "string list \<Rightarrow> stage list \<Rightarrow> bool" where
  "columns_flow cols [] = True"
| "columns_flow cols (s # ss) =
     (list_all (\<lambda>c. c \<in> set cols) (input_cols s @ label_cols s)
      \<and> columns_flow (cols @ output_cols s) ss)"

subsection \<open>The schema and the payloads of the hosting segment\<close>

definition schema :: json where
  "schema = JObject
     [ (''input'', JArray
         [ JObject [(''name'', JString ''sex''), (''type'', JString ''string'')],
           JObject [(''name'', JString ''length''), (''type'', JString ''double'')],
           JObject [(''name'', JString ''diameter''), (''type'', JString ''double'')],
           JObject [(''name'', JString ''height''), (''type'', JString ''double'')],
           JObject [(''name'', JString ''whole_weight''), (''type'', JString ''double'')],
           JObject [(''name'', JString ''shucked_weight''), (''type'', JString ''double'')],
           JObject [(''name'', JString ''viscera_weight''), (''type'', JString ''double'')],
           JObject [(''name'', JString ''shell_weight''), (''type'', JString ''double'')] ]),
       (''output'', JObject [(''name'', JString ''prediction''), (''type'', JString ''double'')]) ]"

text \<open>The three payloads, in the order of the cells. The first is a CSV string.\<close>

definition payload_csv :: string where
  "payload_csv = ''F,0.515,0.425,0.14,0.766,0.304,0.1725,0.255''"

definition payload_json :: json where
  "payload_json = JObject
     [ (''data'', JArray
         [ JString ''F'', JNumber (515 / 1000), JNumber (425 / 1000), JNumber (14 / 100),
           JNumber (766 / 1000), JNumber (304 / 1000), JNumber (1725 / 10000),
           JNumber (255 / 1000) ]) ]"

definition payload_with_schema :: json where
  "payload_with_schema = JObject
     [ (''schema'', JObject
         [ (''input'', JArray
             [ JObject [(''name'', JString ''length''), (''type'', JString ''double'')],
               JObject [(''name'', JString ''sex''), (''type'', JString ''string'')],
               JObject [(''name'', JString ''diameter''), (''type'', JString ''double'')],
               JObject [(''name'', JString ''height''), (''type'', JString ''double'')],
               JObject [(''name'', JString ''whole_weight''), (''type'', JString ''double'')],
               JObject [(''name'', JString ''shucked_weight''), (''type'', JString ''double'')],
               JObject [(''name'', JString ''viscera_weight''), (''type'', JString ''double'')],
               JObject [(''name'', JString ''shell_weight''), (''type'', JString ''double'')] ]),
           (''output'',
              JObject [(''name'', JString ''prediction''), (''type'', JString ''double'')]) ]),
       (''data'', JArray
         [ JNumber (515 / 1000), JString ''F'', JNumber (425 / 1000), JNumber (14 / 100),
           JNumber (766 / 1000), JNumber (304 / 1000), JNumber (1725 / 10000),
           JNumber (255 / 1000) ]) ]"

text \<open>Reading a schema and a payload the way the serving container's convention reads
  them: \<^verbatim>\<open>input\<close> is a list of columns, each with a \<^verbatim>\<open>name\<close> and a \<^verbatim>\<open>type\<close>; the i-th
  entry of \<^verbatim>\<open>data\<close> is the value of the i-th column.\<close>

definition column :: "string \<Rightarrow> string \<Rightarrow> json" where
  "column n t = JObject [(''name'', JString n), (''type'', JString t)]"

fun input_columns :: "json \<Rightarrow> json list" where
  "input_columns sch =
     (case get_item sch ''input'' of
        Some (JArray cols) \<Rightarrow> cols
      | _ \<Rightarrow> [])"

fun column_name :: "json \<Rightarrow> string" where
  "column_name c = (case get_item c ''name'' of Some (JString n) \<Rightarrow> n | _ \<Rightarrow> [])"

fun payload_data :: "json \<Rightarrow> json list" where
  "payload_data p = (case get_item p ''data'' of Some (JArray xs) \<Rightarrow> xs | _ \<Rightarrow> [])"

definition read_record :: "json \<Rightarrow> json list \<Rightarrow> (string \<rightharpoonup> json)" where
  "read_record sch xs = map_of (zip (map column_name (input_columns sch)) xs)"

definition swap_entries :: "nat \<Rightarrow> nat \<Rightarrow> 'a list \<Rightarrow> 'a list" where
  "swap_entries i j xs = xs[i := xs ! j, j := xs ! i]"

fun type_name :: "data_type \<Rightarrow> string" where
  "type_name StringType = ''string''"
| "type_name DoubleType = ''double''"

definition field_column :: "struct_field \<Rightarrow> json" where
  "field_column f = column (field_name f) (type_name (field_type f))"


section \<open>The local disk and the archive libraries\<close>

text \<open>
  Errors are values. An operating-system error carries its \<^verbatim>\<open>errno\<close> and the file name;
  \<open>BadZipfile\<close> is \<^verbatim>\<open>zipfile\<close>'s own error; \<open>FileAlreadyExistsException\<close> is the Java
  exception the serialization library surfaces; \<open>External\<close> is any other error raised inside
  Spark, MLeap, boto3 or the SageMaker SDK.
\<close>

datatype errno = ENOENT | EEXIST | EISDIR | ENOTDIR

datatype exn =
    OSError errno string
  | BadZipfile string
  | FileAlreadyExistsException string
  | External string

text \<open>
  A file is uninterpreted bytes, a zip archive (its members in order: name and data, a name
  ending in \<^verbatim>\<open>/\<close> is a directory member), or a gzipped tar archive (its top-level members in
  the order they were added, each with the whole tree that \<^verbatim>\<open>tar.add\<close> stored under its
  \<^verbatim>\<open>arcname\<close>). A directory lists its entries by name. Symbolic links, permissions and the
  byte encoding of the archives are not modelled.
\<close>

datatype node =
    Blob string
  | ZipFile "(string \<times> string) list"
  | TarGz "(string \<times> node) list"
  | Dir "(string \<times> node) list"

type_synonym path = "string list"

fun split_on :: "char \<Rightarrow> string \<Rightarrow> string list" where
  "split_on c [] = [[]]"
| "split_on c (x # xs) =
     (if x = c then [] # split_on c xs
      else (case split_on c xs of w # ws \<Rightarrow> (x # w) # ws | [] \<Rightarrow> [[x]]))"

text \<open>The components of an absolute path name such as \<^verbatim>\<open>/tmp/model.zip\<close>.\<close>

definition components :: "string \<Rightarrow> path" where
  "components name = filter (\<lambda>p. p \<noteq> []) (split_on (CHR ''/'') name)"

text \<open>\<^verbatim>\<open>os.stat\<close>: the node at a path, \<open>ENOENT\<close> when a component is missing, \<open>ENOTDIR\<close>
  when the path runs through a file.\<close>

fun stat :: "node \<Rightarrow> path \<Rightarrow> errno + node" where
  "stat n [] = Inr n"
| "stat (Dir es) (c # cs) = (case map_of es c of None \<Rightarrow> Inl ENOENT | Some n \<Rightarrow> stat n cs)"
| "stat _ (c # cs) = Inl ENOTDIR"

definition lookup :: "node \<Rightarrow> path \<Rightarrow> node option" where
  "lookup n p = (case stat n p of Inl e \<Rightarrow> None | Inr m \<Rightarrow> Some m)"

fun is_dir :: "node \<Rightarrow> bool" where
  "is_dir (Dir es) = True"
| "is_dir _ = False"

text \<open>Unlinking the entry at a path (with everything below it). The callers check first
  what is there.\<close>

fun delete :: "path \<Rightarrow> node \<Rightarrow> node" where
  "delete [] n = n"
| "delete [c] (Dir es) = Dir (AList.delete c es)"
| "delete (c # cs) (Dir es) =
     (case map_of es c of
        None \<Rightarrow> Dir es
      | Some n \<Rightarrow> Dir (AList.update c (delete cs n) es))"
| "delete (c # cs) n = n"

text \<open>Placing a node at a path, creating the missing directories on the way as
  \<^verbatim>\<open>os.makedirs\<close> does. The callers check first that the path does not run through a file.\<close>

fun store :: "path \<Rightarrow> node \<Rightarrow> node \<Rightarrow> node" where
  "store [] new n = new"
| "store (c # cs) new (Dir es) =
     Dir (AList.update c
            (store cs new (case map_of es c of None \<Rightarrow> Dir [] | Some m \<Rightarrow> m)) es)"
| "store (c # cs) new n = n"

subsection \<open>\<^verbatim>\<open>os.remove\<close> and \<^verbatim>\<open>shutil.rmtree\<close>\<close>

text \<open>Modelled from the spec: the Python standard library is not part of the repository;
  \<^verbatim>\<open>os.remove\<close> unlinks a file and raises on a missing path or a directory.\<close>

definition os_remove :: "string \<Rightarrow> node \<Rightarrow> (exn + unit) \<times> node" where
  "os_remove name fs =
     (case stat fs (components name) of
        Inl e \<Rightarrow> (Inl (OSError e name), fs)
      | Inr (Dir es) \<Rightarrow> (Inl (OSError EISDIR name), fs)
      | Inr f \<Rightarrow> (Inr (), delete (components name) fs))"

text \<open>Modelled from the spec: \<^verbatim>\<open>shutil.rmtree\<close> removes a directory and everything below
  it and raises on a missing path or a file.\<close>

definition rmtree :: "string \<Rightarrow> node \<Rightarrow> (exn + unit) \<times> node" where
  "rmtree name fs =
     (case stat fs (components name) of
        Inl e \<Rightarrow> (Inl (OSError e name), fs)
      | Inr (Dir es) \<Rightarrow> (Inr (), delete (components name) fs)
      | Inr f \<Rightarrow> (Inl (OSError ENOTDIR name), fs))"

subsection \<open>\<^verbatim>\<open>zipfile\<close>\<close>

text \<open>Opening a file for writing (\<^verbatim>\<open>open(name, "wb")\<close>): the file is created or replaced;
  the directory that holds it must exist.\<close>

definition write_file :: "path \<Rightarrow> node \<Rightarrow> node \<Rightarrow> errno + node" where
  "write_file p new fs =
     (case stat fs p of
        Inr (Dir es) \<Rightarrow> Inl EISDIR
      | Inr f \<Rightarrow> Inr (store p new fs)
      | Inl ENOENT \<Rightarrow>
          (case stat fs (butlast p) of
             Inr (Dir es) \<Rightarrow> Inr (store p new fs)
           | Inr f \<Rightarrow> Inl ENOTDIR
           | Inl e \<Rightarrow> Inl e)
      | Inl e \<Rightarrow> Inl e)"

text \<open>Modelled from the spec: \<^verbatim>\<open>zipfile.ZipFile(name)\<close> opens an existing zip archive for
  reading and gives its members.\<close>

definition ZipFile_open :: "string \<Rightarrow> node \<Rightarrow> (exn + (string \<times> string) list) \<times> node" where
  "ZipFile_open name fs =
     (case stat fs (components name) of
        Inl e \<Rightarrow> (Inl (OSError e name), fs)
      | Inr (Dir es) \<Rightarrow> (Inl (OSError EISDIR name), fs)
      | Inr (ZipFile ms) \<Rightarrow> (Inr ms, fs)
      | Inr f \<Rightarrow> (Inl (BadZipfile name), fs))"

text \<open>The member's path below the target directory: \<^verbatim>\<open>zipfile\<close> drops empty components,
  \<^verbatim>\<open>.\<close> and \<^verbatim>\<open>..\<close> from the member's name.\<close>

definition arcname_parts :: "string \<Rightarrow> path" where
  "arcname_parts name =
     filter (\<lambda>p. p \<noteq> [] \<and> p \<noteq> ''.'' \<and> p \<noteq> ''..'') (split_on (CHR ''/'') name)"

definition is_dir_member :: "string \<Rightarrow> bool" where
  "is_dir_member name = (name \<noteq> [] \<and> last name = CHR ''/'')"

text \<open>Modelled from the spec: \<^verbatim>\<open>ZipFile._extract_member\<close>. The directories above the
  target are created when they do not exist; a directory member is created unless it is
  there; a file member is written, replacing a file of the same name.\<close>

definition extract_member :: "string \<Rightarrow> string \<times> string \<Rightarrow> node \<Rightarrow> exn + node" where
  "extract_member target m fs =
     (let t = components target @ arcname_parts (fst m);
          upperdirs = butlast t;
          made =
            (if upperdirs \<noteq> [] then
               (case stat fs upperdirs of
                  Inl ENOENT \<Rightarrow> Inr (store upperdirs (Dir []) fs)
                | Inl e \<Rightarrow> Inl (OSError e (fst m))
                | Inr n \<Rightarrow> Inr fs)
             else Inr fs)
      in case made of
           Inl e \<Rightarrow> Inl e
         | Inr fs1 \<Rightarrow>
             (if is_dir_member (fst m) then
                (case stat fs1 t of
                   Inr (Dir es) \<Rightarrow> Inr fs1
                 | Inr f \<Rightarrow> Inl (OSError EEXIST (fst m))
                 | Inl ENOENT \<Rightarrow>
                     (case write_file t (Dir []) fs1 of
                        Inl e \<Rightarrow> Inl (OSError e (fst m))
                      | Inr fs2 \<Rightarrow> Inr fs2)
                 | Inl e \<Rightarrow> Inl (OSError e (fst m)))
              else
                (case write_file t (Blob (snd m)) fs1 of
                   Inl e \<Rightarrow> Inl (OSError e (fst m))
                 | Inr fs2 \<Rightarrow> Inr fs2)))"

text \<open>Modelled from the spec: \<^verbatim>\<open>ZipFile.extractall(target)\<close> extracts the members in
  order and stops at the first error, leaving what it has extracted.\<close>

fun extractall :: "(string \<times> string) list \<Rightarrow> string \<Rightarrow> node \<Rightarrow> (exn + unit) \<times> node" where
  "extractall [] target fs = (Inr (), fs)"
| "extractall (m # ms) target fs =
     (case extract_member target m fs of
        Inl e \<Rightarrow> (Inl e, fs)
      | Inr fs1 \<Rightarrow> extractall ms target fs1)"

subsection \<open>\<^verbatim>\<open>tarfile\<close>\<close>

text \<open>An open archive: its file name and the members added so far. Every addition is
  written through to the file, so an error inside the \<^verbatim>\<open>with\<close> block leaves the archive
  with the members added before it.\<close>

datatype tarfile = TarFile string "(string \<times> node) list"

text \<open>Modelled from the spec: \<^verbatim>\<open>tarfile.open(name, "w:gz")\<close> creates the archive file,
  empty, replacing a file of that name.\<close>

definition tarfile_open :: "string \<Rightarrow> node \<Rightarrow> (exn + tarfile) \<times> node" where
  "tarfile_open name fs =
     (case write_file (components name) (TarGz []) fs of
        Inl e \<Rightarrow> (Inl (OSError e name), fs)
      | Inr fs1 \<Rightarrow> (Inr (TarFile name []), fs1))"

text \<open>Modelled from the spec: \<^verbatim>\<open>TarFile.add(name, arcname)\<close> stores the file or the whole
  directory tree at \<open>name\<close> under \<open>arcname\<close>. The archive never stores itself: adding the
  archive's own file is skipped, also inside a directory that is added.\<close>

definition tar_add :: "tarfile \<Rightarrow> string \<Rightarrow> string \<Rightarrow> node \<Rightarrow> (exn + tarfile) \<times> node" where
  "tar_add tar name arcname fs =
     (case tar of TarFile tname ms \<Rightarrow>
        if components name = components tname then (Inr tar, fs)
        else
          (case stat fs (components name) of
             Inl e \<Rightarrow> (Inl (OSError e name), fs)
           | Inr n \<Rightarrow>
               (let stored =
                      (if prefix (components name) (components tname)
                       then delete (drop (length (components name)) (components tname)) n
                       else n);
                    ms1 = ms @ [(arcname, stored)]
                in (Inr (TarFile tname ms1), store (components tname) (TarGz ms1) fs))))"


section \<open>The external libraries and the notebook's cells\<close>

datatype evaluator = RegressionEvaluator string string string

datatype serializer = CSVSerializer | JSONSerializer

datatype 'h predictor = Predictor string 'h serializer

datatype 'h sparkml_model = SparkMLModel string string 'h string "(string \<times> string) list"

fun model_data :: "'h sparkml_model \<Rightarrow> string" where
  "model_data (SparkMLModel data role session name env) = data"

fun model_env :: "'h sparkml_model \<Rightarrow> (string \<times> string) list" where
  "model_env (SparkMLModel data role session name env) = env"

fun predictor_endpoint :: "'h predictor \<Rightarrow> string" where
  "predictor_endpoint (Predictor endpoint session ser) = endpoint"

text \<open>
  A call on an open archive carries the archive: the members of the zip file that was
  opened, the tar file with the members added so far.

  Every call the notebook makes into a library that can fail or that acts on the world
  outside the notebook. \<open>'df\<close> is a Spark dataframe, \<open>'m\<close> a fitted pipeline model, \<open>'h\<close> a
  handle of boto3 or of the SageMaker SDK (a session, a client, a resource).
\<close>

datatype ('df, 'm, 'h) call =
    C_read_csv string bool struct_type
  | C_show 'df nat
  | C_randomSplit 'df "rat list"
  | C_fit pipeline 'df
  | C_transform 'm 'df
  | C_select 'df "string list"
  | C_evaluate evaluator 'df
  | C_serializeToBundle 'm string 'df
  | C_ZipFile string
  | C_extractall "(string \<times> string) list" string
  | C_tarfile_open string string
  | C_tar_add tarfile string string
  | C_boto3_resource string
  | C_upload_file 'h string string string
  | C_os_remove string
  | C_rmtree string
  | C_strftime string
  | C_boto3_Session
  | C_boto3_client string
  | C_sagemaker_Session 'h 'h 'h
  | C_get_execution_role
  | C_deploy "'h sparkml_model" nat string string
  | C_predict "'h predictor" json
  | C_delete_endpoint 'h string

text \<open>The name of the library function a call goes to.\<close>

fun label :: "('df, 'm, 'h) call \<Rightarrow> string" where
  "label (C_read_csv p h s) = ''spark.read.csv''"
| "label (C_show d n) = ''DataFrame.show''"
| "label (C_randomSplit d ws) = ''DataFrame.randomSplit''"
| "label (C_fit p d) = ''Pipeline.fit''"
| "label (C_transform m d) = ''PipelineModel.transform''"
| "label (C_select d cs) = ''DataFrame.select''"
| "label (C_evaluate e d) = ''RegressionEvaluator.evaluate''"
| "label (C_serializeToBundle m u d) = ''PipelineModel.serializeToBundle''"
| "label (C_ZipFile n) = ''zipfile.ZipFile''"
| "label (C_extractall ms t) = ''ZipFile.extractall''"
| "label (C_tarfile_open n m) = ''tarfile.open''"
| "label (C_tar_add t n a) = ''TarFile.add''"
| "label (C_boto3_resource n) = ''boto3.resource''"
| "label (C_upload_file h b f k) = ''Bucket.upload_file''"
| "label (C_os_remove n) = ''os.remove''"
| "label (C_rmtree n) = ''shutil.rmtree''"
| "label (C_strftime f) = ''time.strftime''"
| "label C_boto3_Session = ''boto3.session.Session''"
| "label (C_boto3_client n) = ''boto3.client''"
| "label (C_sagemaker_Session b c r) = ''sagemaker.Session''"
| "label C_get_execution_role = ''sagemaker.get_execution_role''"
| "label (C_deploy m n t e) = ''SparkMLModel.deploy''"
| "label (C_predict p x) = ''Predictor.predict''"
| "label (C_delete_endpoint h e) = ''Session.delete_endpoint''"

text \<open>
  The libraries that are not modelled are parameters: each function takes the state of the
  world outside the notebook (\<open>'c\<close>: the cluster, object storage, the hosting platform, the
  clock) and returns its result or its error, with the new state. \<open>'r\<close> is the response of
  the endpoint.
\<close>

record ('c, 'df, 'm, 'h, 'r) externals =
  ext_read_csv :: "string \<Rightarrow> bool \<Rightarrow> struct_type \<Rightarrow> 'c \<Rightarrow> (exn + 'df) \<times> 'c"
  ext_show :: "'df \<Rightarrow> nat \<Rightarrow> 'c \<Rightarrow> (exn + unit) \<times> 'c"
  ext_randomSplit :: "'df \<Rightarrow> rat list \<Rightarrow> 'c \<Rightarrow> (exn + 'df \<times> 'df) \<times> 'c"
  ext_fit :: "pipeline \<Rightarrow> 'df \<Rightarrow> 'c \<Rightarrow> (exn + 'm) \<times> 'c"
  ext_transform :: "'m \<Rightarrow> 'df \<Rightarrow> 'c \<Rightarrow> (exn + 'df) \<times> 'c"
  ext_select :: "'df \<Rightarrow> string list \<Rightarrow> 'c \<Rightarrow> (exn + 'df) \<times> 'c"
  ext_evaluate :: "evaluator \<Rightarrow> 'df \<Rightarrow> 'c \<Rightarrow> (exn + real) \<times> 'c"
  ext_bundle :: "'m \<Rightarrow> 'df \<Rightarrow> 'c \<Rightarrow> (exn + (string \<times> string) list) \<times> 'c"
  ext_boto3_resource :: "string \<Rightarrow> 'c \<Rightarrow> (exn + 'h) \<times> 'c"
  ext_put_object :: "'h \<Rightarrow> string \<Rightarrow> string \<Rightarrow> node \<Rightarrow> 'c \<Rightarrow> (exn + unit) \<times> 'c"
  ext_json_dumps :: "json \<Rightarrow> nat \<Rightarrow> string"
  ext_strftime :: "string \<Rightarrow> 'c \<Rightarrow> (exn + string) \<times> 'c"
  ext_boto3_Session :: "'c \<Rightarrow> (exn + 'h) \<times> 'c"
  ext_boto3_client :: "string \<Rightarrow> 'c \<Rightarrow> (exn + 'h) \<times> 'c"
  ext_sagemaker_Session :: "'h \<Rightarrow> 'h \<Rightarrow> 'h \<Rightarrow> 'c \<Rightarrow> (exn + 'h) \<times> 'c"
  ext_get_execution_role :: "'c \<Rightarrow> (exn + string) \<times> 'c"
  ext_deploy :: "'h sparkml_model \<Rightarrow> nat \<Rightarrow> string \<Rightarrow> string \<Rightarrow> 'c \<Rightarrow> (exn + unit) \<times> 'c"
  ext_predict :: "'h predictor \<Rightarrow> json \<Rightarrow> 'c \<Rightarrow> (exn + 'r) \<times> 'c"
  ext_delete_endpoint :: "'h \<Rightarrow> string \<Rightarrow> 'c \<Rightarrow> (exn + unit) \<times> 'c"

subsection \<open>State and sequencing\<close>

text \<open>
  The state a cell runs in: the local disk, the world outside, and the log of the library
  calls made so far, each with the error it raised, if any. The log is how the order of
  the effects is observed; the notebook does not read it.
\<close>

record ('c, 'df, 'm, 'h) world =
  disk :: node
  cloud :: 'c
  trace :: "(('df, 'm, 'h) call \<times> exn option) list"

type_synonym ('s, 'a) prog = "'s \<Rightarrow> (exn + 'a) \<times> 's"

definition return :: "'a \<Rightarrow> ('s, 'a) prog" where
  "return x = (\<lambda>s. (Inr x, s))"

text \<open>One statement after another: an exception of the first ends the run. The notebook
  has no \<^verbatim>\<open>try\<close>, so this is the only way two statements are combined.\<close>

definition andthen :: "('s, 'a) prog \<Rightarrow> ('a \<Rightarrow> ('s, 'b) prog) \<Rightarrow> ('s, 'b) prog" where
  "andthen m f = (\<lambda>s. case m s of (Inl e, s1) \<Rightarrow> (Inl e, s1) | (Inr x, s1) \<Rightarrow> f x s1)"

fun outcome :: "exn + 'a \<Rightarrow> exn option" where
  "outcome (Inl e) = Some e"
| "outcome (Inr x) = None"

definition invoke ::
  "('df, 'm, 'h) call \<Rightarrow> (node \<times> 'c \<Rightarrow> (exn + 'a) \<times> node \<times> 'c) \<Rightarrow>
   (('c, 'df, 'm, 'h) world, 'a) prog" where
  "invoke c f = (\<lambda>s.
     case f (disk s, cloud s) of
       (r, d1, c1) \<Rightarrow> (r, s\<lparr>disk := d1, cloud := c1, trace := trace s @ [(c, outcome r)]\<rparr>))"

definition on_cloud :: "('c \<Rightarrow> (exn + 'a) \<times> 'c) \<Rightarrow> node \<times> 'c \<Rightarrow> (exn + 'a) \<times> node \<times> 'c" where
  "on_cloud g = (\<lambda>(d, c). case g c of (r, c1) \<Rightarrow> (r, d, c1))"

definition on_disk :: "(node \<Rightarrow> (exn + 'a) \<times> node) \<Rightarrow> node \<times> 'c \<Rightarrow> (exn + 'a) \<times> node \<times> 'c" where
  "on_disk g = (\<lambda>(d, c). case g d of (r, d1) \<Rightarrow> (r, d1, c))"


subsection \<open>The library calls\<close>

definition spark_read_csv where
  "spark_read_csv X name header sch =
     invoke (C_read_csv name header sch) (on_cloud (ext_read_csv X name header sch))"

definition df_show where
  "df_show X df n = invoke (C_show df n) (on_cloud (ext_show X df n))"

definition randomSplit where
  "randomSplit X df weights =
     invoke (C_randomSplit df weights) (on_cloud (ext_randomSplit X df weights))"

definition fit where
  "fit X p df = invoke (C_fit p df) (on_cloud (ext_fit X p df))"

definition transform where
  "transform X m df = invoke (C_transform m df) (on_cloud (ext_transform X m df))"

definition select where
  "select X df cols = invoke (C_select df cols) (on_cloud (ext_select X df cols))"

definition evaluate where
  "evaluate X ev df = invoke (C_evaluate ev df) (on_cloud (ext_evaluate X ev df))"

text \<open>Modelled from the spec: MLeap's \<^verbatim>\<open>serializeToBundle\<close> is not part of the
  repository. It writes the bundle as a zip archive at the path of the
  \<^verbatim>\<open>jar:file:\<close> URI; the notebook documents that it fails with \<^verbatim>\<open>file already exists\<close>
  when the model is still on the local disk. What the bundle contains, and every other
  failure (such as \<^verbatim>\<open>JavaPackage is not callable\<close>), is the library's.\<close>

definition bundle_to_disk ::
  "('c, 'df, 'm, 'h, 'r) externals \<Rightarrow> 'm \<Rightarrow> string \<Rightarrow> 'df \<Rightarrow> node \<times> 'c \<Rightarrow>
   (exn + unit) \<times> node \<times> 'c" where
  "bundle_to_disk X m uri df = (\<lambda>(d, c).
     let name = drop (length ''jar:file:'') uri in
     case stat d (components name) of
       Inr n \<Rightarrow> (Inl (FileAlreadyExistsException name), d, c)
     | Inl en \<Rightarrow>
         (case ext_bundle X m df c of
            (Inl e, c1) \<Rightarrow> (Inl e, d, c1)
          | (Inr ms, c1) \<Rightarrow>
              (case write_file (components name) (ZipFile ms) d of
                 Inl e \<Rightarrow> (Inl (OSError e name), d, c1)
               | Inr d1 \<Rightarrow> (Inr (), d1, c1))))"

definition serializeToBundle where
  "serializeToBundle X m uri df = invoke (C_serializeToBundle m uri df) (bundle_to_disk X m uri df)"

definition ZipFile_call where
  "ZipFile_call name = invoke (C_ZipFile name) (on_disk (ZipFile_open name))"

definition extractall_call where
  "extractall_call zf target = invoke (C_extractall zf target) (on_disk (extractall zf target))"

definition tarfile_open_call where
  "tarfile_open_call name mode = invoke (C_tarfile_open name mode) (on_disk (tarfile_open name))"

definition tar_add_call where
  "tar_add_call tar name arcname =
     invoke (C_tar_add tar name arcname) (on_disk (tar_add tar name arcname))"

definition boto3_resource where
  "boto3_resource X service = invoke (C_boto3_resource service) (on_cloud (ext_boto3_resource X service))"

text \<open>Modelled from the spec: boto3's \<^verbatim>\<open>Bucket.upload_file\<close> reads the local file and puts
  it into the bucket under the key; the transfer itself is the library's.\<close>

definition file_to_bucket ::
  "('c, 'df, 'm, 'h, 'r) externals \<Rightarrow> 'h \<Rightarrow> string \<Rightarrow> string \<Rightarrow> string \<Rightarrow> node \<times> 'c \<Rightarrow>
   (exn + unit) \<times> node \<times> 'c" where
  "file_to_bucket X s3 bucket filename key = (\<lambda>(d, c).
     case stat d (components filename) of
       Inl e \<Rightarrow> (Inl (OSError e filename), d, c)
     | Inr (Dir es) \<Rightarrow> (Inl (OSError EISDIR filename), d, c)
     | Inr f \<Rightarrow> (case ext_put_object X s3 bucket key f c of (r, c1) \<Rightarrow> (r, d, c1)))"

definition upload_file where
  "upload_file X s3 bucket filename key =
     invoke (C_upload_file s3 bucket filename key) (file_to_bucket X s3 bucket filename key)"

definition os_remove_call where
  "os_remove_call name = invoke (C_os_remove name) (on_disk (os_remove name))"

definition rmtree_call where
  "rmtree_call name = invoke (C_rmtree name) (on_disk (rmtree name))"

definition strftime where
  "strftime X fmt = invoke (C_strftime fmt) (on_cloud (ext_strftime X fmt))"

definition boto3_Session where
  "boto3_Session X = invoke C_boto3_Session (on_cloud (ext_boto3_Session X))"

definition boto3_client where
  "boto3_client X service = invoke (C_boto3_client service) (on_cloud (ext_boto3_client X service))"

definition sagemaker_Session where
  "sagemaker_Session X b c r =
     invoke (C_sagemaker_Session b c r) (on_cloud (ext_sagemaker_Session X b c r))"

definition get_execution_role where
  "get_execution_role X = invoke C_get_execution_role (on_cloud (ext_get_execution_role X))"

definition deploy where
  "deploy X m n t e = invoke (C_deploy m n t e) (on_cloud (ext_deploy X m n t e))"

definition predict where
  "predict X p x = invoke (C_predict p x) (on_cloud (ext_predict X p x))"

definition delete_endpoint where
  "delete_endpoint X session e = invoke (C_delete_endpoint session e) (on_cloud (ext_delete_endpoint X session e))"

text \<open>\<^verbatim>\<open>os.path.join\<close> of two names.\<close>

definition os_path_join :: "string \<Rightarrow> string \<Rightarrow> string" where
  "os_path_join a b =
     (if b \<noteq> [] \<and> hd b = CHR ''/'' then b
      else if a = [] \<or> last a = CHR ''/'' then a @ b
      else a @ ''/'' @ b)"

subsection \<open>The cells of the training segment\<close>

text \<open>Each code cell is one definition, in the order of the notebook; a cell takes the
  variables it reads and returns the variables it assigns. \<^verbatim>\<open>print\<close> is not modelled.\<close>

definition cell_read where
  "cell_read X =
     andthen (spark_read_csv X ''s3://<your-input-bucket>/abalone/abalone.csv'' False schema_struct)
       (\<lambda>total_df.
     andthen (df_show X total_df 5) (\<lambda>u.
     andthen (randomSplit X total_df [8 / 10, 2 / 10]) (\<lambda>(train_df, validation_df).
     return (total_df, train_df, validation_df))))"

definition cell_fit where
  "cell_fit X train_df = fit X pipeline train_df"

definition cell_transform where
  "cell_transform X model train_df validation_df =
     andthen (transform X model train_df) (\<lambda>transformed_train_df.
     andthen (transform X model validation_df) (\<lambda>transformed_validation_df.
     andthen (select X transformed_validation_df [''prediction'']) (\<lambda>selected.
     andthen (df_show X selected 5) (\<lambda>u.
     return (transformed_train_df, transformed_validation_df)))))"

definition evaluator :: evaluator where
  "evaluator = RegressionEvaluator ''rings'' ''prediction'' ''rmse''"

definition cell_evaluate where
  "cell_evaluate X transformed_train_df transformed_validation_df =
     andthen (evaluate X evaluator transformed_train_df) (\<lambda>train_rmse.
     andthen (evaluate X evaluator transformed_validation_df) (\<lambda>validation_rmse.
     return (train_rmse, validation_rmse)))"

definition cell_serialize where
  "cell_serialize X model transformed_validation_df =
     serializeToBundle X model ''jar:file:/tmp/model.zip'' transformed_validation_df"

definition cell_repackage where
  "cell_repackage =
     andthen (ZipFile_call ''/tmp/model.zip'') (\<lambda>zf.
     andthen (extractall_call zf ''/tmp/model'') (\<lambda>u.
     andthen (tarfile_open_call ''/tmp/model.tar.gz'' ''w:gz'') (\<lambda>tar.
     andthen (tar_add_call tar ''/tmp/model/bundle.json'' ''bundle.json'') (\<lambda>tar1.
     andthen (tar_add_call tar1 ''/tmp/model/root'' ''root'') (\<lambda>tar2.
     return ())))))"

definition file_name :: string where
  "file_name = os_path_join ''emr/abalone/mleap'' ''model.tar.gz''"

definition cell_upload where
  "cell_upload X =
     andthen (boto3_resource X ''s3'') (\<lambda>s3.
     upload_file X s3 ''<your-output-bucket-name>'' ''/tmp/model.tar.gz'' file_name)"

definition cell_cleanup where
  "cell_cleanup =
     andthen (os_remove_call ''/tmp/model.zip'') (\<lambda>u.
     andthen (os_remove_call ''/tmp/model.tar.gz'') (\<lambda>u.
     rmtree_call ''/tmp/model''))"

text \<open>The variables of the training segment after its last cell.\<close>

record ('df, 'm) training_vars =
  total_df :: 'df
  train_df :: 'df
  validation_df :: 'df
  model :: 'm
  transformed_train_df :: 'df
  transformed_validation_df :: 'df
  train_rmse :: real
  validation_rmse :: real

text \<open>The cells up to the evaluation, and then the whole segment.\<close>

definition fit_and_evaluate where
  "fit_and_evaluate X =
     andthen (cell_read X) (\<lambda>(total, train, validation).
     andthen (cell_fit X train) (\<lambda>m.
     andthen (cell_transform X m train validation) (\<lambda>(ttrain, tvalidation).
     andthen (cell_evaluate X ttrain tvalidation) (\<lambda>(rmse_t, rmse_v).
     return \<lparr> total_df = total, train_df = train, validation_df = validation, model = m,
              transformed_train_df = ttrain, transformed_validation_df = tvalidation,
              train_rmse = rmse_t, validation_rmse = rmse_v \<rparr>))))"

definition export_model where
  "export_model X m tvalidation =
     andthen (cell_serialize X m tvalidation) (\<lambda>u.
     andthen cell_repackage (\<lambda>u.
     andthen (cell_upload X) (\<lambda>u.
     cell_cleanup)))"

definition training_segment where
  "training_segment X =
     andthen (fit_and_evaluate X) (\<lambda>vars.
     andthen (export_model X (model vars) (transformed_validation_df vars)) (\<lambda>u.
     return vars))"

subsection \<open>The cells of the hosting segment\<close>

definition schema_json where
  "schema_json X = ext_json_dumps X schema 2"

definition sparkml_data :: string where
  "sparkml_data =
     ''s3://'' @ ''<your-output-bucket-name>'' @ ''/'' @ ''emr/abalone/mleap'' @ ''/'' @ ''model.tar.gz''"

definition model_name :: "string \<Rightarrow> string" where
  "model_name timestamp_prefix = ''sparkml-abalone-'' @ timestamp_prefix"

definition endpoint_name :: "string \<Rightarrow> string" where
  "endpoint_name timestamp_prefix = ''sparkml-abalone-ep-'' @ timestamp_prefix"

definition sparkml_model where
  "sparkml_model X role session timestamp_prefix =
     SparkMLModel sparkml_data role session (model_name timestamp_prefix)
       [(''SAGEMAKER_SPARKML_SCHEMA'', schema_json X)]"

definition cell_deploy where
  "cell_deploy X =
     andthen (strftime X ''%Y-%m-%d-%H-%M-%S'') (\<lambda>timestamp_prefix.
     andthen (boto3_Session X) (\<lambda>boto3_session.
     andthen (boto3_client X ''sagemaker'') (\<lambda>sagemaker_client.
     andthen (boto3_client X ''sagemaker-runtime'') (\<lambda>sagemaker_runtime_client.
     andthen (sagemaker_Session X boto3_session sagemaker_client sagemaker_runtime_client)
       (\<lambda>session.
     andthen (get_execution_role X) (\<lambda>role.
     andthen (deploy X (sparkml_model X role session timestamp_prefix) 1 ''ml.c4.xlarge''
                (endpoint_name timestamp_prefix)) (\<lambda>u.
     return (session, endpoint_name timestamp_prefix))))))))"

definition cell_predict_csv where
  "cell_predict_csv X session endpoint =
     predict X (Predictor endpoint session CSVSerializer) (JString payload_csv)"

definition cell_predict_json where
  "cell_predict_json X session endpoint =
     predict X (Predictor endpoint session JSONSerializer) payload_json"

definition cell_predict_with_schema where
  "cell_predict_with_schema X session endpoint =
     predict X (Predictor endpoint session JSONSerializer) payload_with_schema"

definition cell_delete where
  "cell_delete X session endpoint = delete_endpoint X session endpoint"

definition hosting_segment where
  "hosting_segment X =
     andthen (cell_deploy X) (\<lambda>(session, endpoint).
     andthen (cell_predict_csv X session endpoint) (\<lambda>r1.
     andthen (cell_predict_json X session endpoint) (\<lambda>r2.
     andthen (cell_predict_with_schema X session endpoint) (\<lambda>r3.
     andthen (cell_delete X session endpoint) (\<lambda>u.
     return (r1, r2, r3))))))"

text \<open>The whole notebook, every cell run once from top to bottom.\<close>

definition notebook where
  "notebook X =
     andthen (training_segment X) (\<lambda>vars.
     andthen (hosting_segment X) (\<lambda>responses.
     return (vars, responses)))"


section \<open>Reading the log\<close>

text \<open>
  What a logged call does to the disk and to the world outside, with its result dropped:
  the same library function the cell called, on the same arguments.
\<close>

fun erase :: "(exn + 'a) \<times> 'w \<Rightarrow> exn option \<times> 'w" where
  "erase (r, w) = (outcome r, w)"

fun perform ::
  "('c, 'df, 'm, 'h, 'r) externals \<Rightarrow> ('df, 'm, 'h) call \<Rightarrow> node \<times> 'c \<Rightarrow> exn option \<times> node \<times> 'c" where
  "perform X (C_read_csv n h sch) w = erase (on_cloud (ext_read_csv X n h sch) w)"
| "perform X (C_show d n) w = erase (on_cloud (ext_show X d n) w)"
| "perform X (C_randomSplit d ws) w = erase (on_cloud (ext_randomSplit X d ws) w)"
| "perform X (C_fit p d) w = erase (on_cloud (ext_fit X p d) w)"
| "perform X (C_transform m d) w = erase (on_cloud (ext_transform X m d) w)"
| "perform X (C_select d cs) w = erase (on_cloud (ext_select X d cs) w)"
| "perform X (C_evaluate e d) w = erase (on_cloud (ext_evaluate X e d) w)"
| "perform X (C_serializeToBundle m u d) w = erase (bundle_to_disk X m u d w)"
| "perform X (C_ZipFile n) w = erase (on_disk (ZipFile_open n) w)"
| "perform X (C_extractall ms t) w = erase (on_disk (extractall ms t) w)"
| "perform X (C_tarfile_open n m) w = erase (on_disk (tarfile_open n) w)"
| "perform X (C_tar_add t n a) w = erase (on_disk (tar_add t n a) w)"
| "perform X (C_boto3_resource n) w = erase (on_cloud (ext_boto3_resource X n) w)"
| "perform X (C_upload_file h b f k) w = erase (file_to_bucket X h b f k w)"
| "perform X (C_os_remove n) w = erase (on_disk (os_remove n) w)"
| "perform X (C_rmtree n) w = erase (on_disk (rmtree n) w)"
| "perform X (C_strftime f) w = erase (on_cloud (ext_strftime X f) w)"
| "perform X C_boto3_Session w = erase (on_cloud (ext_boto3_Session X) w)"
| "perform X (C_boto3_client n) w = erase (on_cloud (ext_boto3_client X n) w)"
| "perform X (C_sagemaker_Session b c r) w = erase (on_cloud (ext_sagemaker_Session X b c r) w)"
| "perform X C_get_execution_role w = erase (on_cloud (ext_get_execution_role X) w)"
| "perform X (C_deploy m n t e) w = erase (on_cloud (ext_deploy X m n t e) w)"
| "perform X (C_predict p x) w = erase (on_cloud (ext_predict X p x) w)"
| "perform X (C_delete_endpoint h e) w = erase (on_cloud (ext_delete_endpoint X h e) w)"

text \<open>Replaying a log from a state: every call is made once, in order, each must end as
  the log says, and only the last may have raised.\<close>

fun replay ::
  "('c, 'df, 'm, 'h, 'r) externals \<Rightarrow> (('df, 'm, 'h) call \<times> exn option) list \<Rightarrow> node \<times> 'c \<Rightarrow>
   (node \<times> 'c) option" where
  "replay X [] w = Some w"
| "replay X (ev # evs) w =
     (case perform X (fst ev) w of
        (out, w1) \<Rightarrow>
          if out = snd ev \<and> (out = None \<or> evs = []) then replay X evs w1 else None)"

definition last_outcome :: "('a \<times> exn option) list \<Rightarrow> exn option" where
  "last_outcome evs = (if evs = [] then None else snd (last evs))"

text \<open>What is at a path, without what is below it: a file with its content, or a
  directory. Two disks with the same entries at all paths hold the same files and
  directories.\<close>

fun shallow :: "node \<Rightarrow> node" where
  "shallow (Dir es) = Dir []"
| "shallow n = n"

definition entry_at :: "node \<Rightarrow> path \<Rightarrow> node option" where
  "entry_at n p = map_option shallow (lookup n p)"

text \<open>A small bundle and a disk that holds it exported, for evaluation.\<close>

definition demo_bundle :: "(string \<times> string) list" where
  "demo_bundle = [(''bundle.json'', ''{}''), (''root/'', []), (''root/model.json'', ''{}'')]"

definition demo_exported :: node where
  "demo_exported = Dir
     [(''tmp'', Dir
        [ (''keep.txt'', Blob ''x''),
          (''model.zip'', ZipFile demo_bundle),
          (''model'', Dir [(''bundle.json'', Blob ''{}''),
                          (''root'', Dir [(''model.json'', Blob ''{}'')])]),
          (''model.tar.gz'', TarGz [(''bundle.json'', Blob ''{}''),
                                   (''root'', Dir [(''model.json'', Blob ''{}'')])]) ])]"

definition demo_world :: "node \<Rightarrow> (nat, nat list, nat, string) world" where
  "demo_world d = \<lparr> disk = d, cloud = 0, trace = [] \<rparr>"

definition demo_serialized :: node where
  "demo_serialized = Dir
     [(''tmp'', Dir [(''keep.txt'', Blob ''x''), (''model.zip'', ZipFile demo_bundle)])]"

definition demo_extracted :: node where
  "demo_extracted = Dir
     [(''tmp'', Dir
        [ (''keep.txt'', Blob ''x''),
          (''model.zip'', ZipFile demo_bundle),
          (''model'', Dir [(''bundle.json'', Blob ''{}''),
                          (''root'', Dir [(''model.json'', Blob ''{}'')])]) ])]"

text \<open>A run from \<open>s\<close> to \<open>s'\<close> with result \<open>r\<close> conforms when the calls it added to the log
  all satisfy \<open>P\<close>, their names are \<open>ls\<close> (a prefix of \<open>ls\<close> when the run raised), replaying
  them gives the final disk and world, the run raised exactly when its last call did, with
  that call's error, and a value it returned satisfies \<open>Q\<close>.\<close>

definition conforms where
  "conforms X P Q ls s r s' =
     (\<exists>evs. trace s' = trace s @ evs
        \<and> list_all (\<lambda>ev. P (fst ev)) evs
        \<and> (if outcome r = None then map (\<lambda>ev. label (fst ev)) evs = ls
           else prefix (map (\<lambda>ev. label (fst ev)) evs) ls)
        \<and> replay X evs (disk s, cloud s) = Some (disk s', cloud s')
        \<and> last_outcome evs = outcome r
        \<and> (case r of Inl e \<Rightarrow> True | Inr x \<Rightarrow> Q x))"

definition logged where
  "logged X P Q ls m = (\<forall>s r s'. m s = (r, s') \<longrightarrow> conforms X P Q ls s r s')"

text \<open>The same for a family of properties of the calls, one of which holds in each run (the
  endpoint name is made from the time of the run).\<close>

definition logged_for_some where
  "logged_for_some X PP Q ls m =
     (\<forall>s r s'. m s = (r, s') \<longrightarrow> (\<exists>ep. conforms X (PP ep) Q ls s r s'))"

text \<open>What every call of the notebook has in common with the text of its cell, whatever
  the libraries return: the weights of the split, the pipeline that is fit, the evaluator,
  the file that is uploaded and where, the model that is deployed, and the one endpoint
  name \<open>ep\<close> that deployment, the requests and the deletion use.\<close>

fun call_ok ::
  "('c, 'df, 'm, 'h, 'r) externals \<Rightarrow> string \<Rightarrow> ('df, 'm, 'h) call \<Rightarrow> bool" where
  "call_ok X ep (C_randomSplit d ws) = (ws = [8 / 10, 2 / 10])"
| "call_ok X ep (C_fit p d) = (p = pipeline)"
| "call_ok X ep (C_evaluate e d) = (e = evaluator)"
| "call_ok X ep (C_upload_file h b f k) =
     (f = ''/tmp/model.tar.gz'' \<and> ''s3://'' @ b @ ''/'' @ k = sparkml_data)"
| "call_ok X ep (C_deploy m n t e) =
     (e = ep \<and> model_data m = sparkml_data
      \<and> model_env m = [(''SAGEMAKER_SPARKML_SCHEMA'', ext_json_dumps X schema 2)])"
| "call_ok X ep (C_predict p x) = (predictor_endpoint p = ep)"
| "call_ok X ep (C_delete_endpoint h e) = (e = ep)"
| "call_ok X ep c = True"

text \<open>The library calls of the notebook in the order of its text.\<close>

definition training_calls :: "string list" where
  "training_calls =
     [ ''spark.read.csv'', ''DataFrame.show'', ''DataFrame.randomSplit'', ''Pipeline.fit'',
       ''PipelineModel.transform'', ''PipelineModel.transform'', ''DataFrame.select'',
       ''DataFrame.show'', ''RegressionEvaluator.evaluate'', ''RegressionEvaluator.evaluate'',
       ''PipelineModel.serializeToBundle'', ''zipfile.ZipFile'', ''ZipFile.extractall'',
       ''tarfile.open'', ''TarFile.add'', ''TarFile.add'', ''boto3.resource'',
       ''Bucket.upload_file'', ''os.remove'', ''os.remove'', ''shutil.rmtree'' ]"

definition hosting_calls :: "string list" where
  "hosting_calls =
     [ ''time.strftime'', ''boto3.session.Session'', ''boto3.client'', ''boto3.client'',
       ''sagemaker.Session'', ''sagemaker.get_execution_role'', ''SparkMLModel.deploy'',
       ''Predictor.predict'', ''Predictor.predict'', ''Predictor.predict'',
       ''Session.delete_endpoint'' ]"

definition notebook_calls :: "string list" where
  "notebook_calls = training_calls @ hosting_calls"

text \<open>An instance of the libraries for evaluation: five rows, split four to one; every call
  succeeds and advances the state of the world, a counter, by one.\<close>

definition demo_externals :: "(nat, nat list, nat, string, string) externals" where
  "demo_externals = \<lparr>
     ext_read_csv = (\<lambda>n h sch c. (Inr [1, 2, 3, 4, 5], Suc c)),
     ext_show = (\<lambda>d n c. (Inr (), Suc c)),
     ext_randomSplit = (\<lambda>d ws c. (Inr (take 4 d, drop 4 d), Suc c)),
     ext_fit = (\<lambda>p d c. (Inr (length d), Suc c)),
     ext_transform = (\<lambda>m d c. (Inr (map (\<lambda>x. x + m) d), Suc c)),
     ext_select = (\<lambda>d cs c. (Inr d, Suc c)),
     ext_evaluate = (\<lambda>e d c. (Inr (real (length d)), Suc c)),
     ext_bundle = (\<lambda>m d c. (Inr demo_bundle, Suc c)),
     ext_boto3_resource = (\<lambda>n c. (Inr n, Suc c)),
     ext_put_object = (\<lambda>h b k f c. (Inr (), Suc c)),
     ext_json_dumps = (\<lambda>j i. ''{...}''),
     ext_strftime = (\<lambda>f c. (Inr ''2020-01-01-00-00-00'', Suc c)),
     ext_boto3_Session = (\<lambda>c. (Inr ''boto3-session'', Suc c)),
     ext_boto3_client = (\<lambda>n c. (Inr n, Suc c)),
     ext_sagemaker_Session = (\<lambda>b c r w. (Inr ''session'', Suc w)),
     ext_get_execution_role = (\<lambda>c. (Inr ''role'', Suc c)),
     ext_deploy = (\<lambda>m n t e c. (Inr (), Suc c)),
     ext_predict = (\<lambda>p x c. (Inr ''10.0'', Suc c)),
     ext_delete_endpoint = (\<lambda>h e c. (Inr (), Suc c)) \<rparr>"

definition demo_disk :: node where
  "demo_disk = Dir [(''tmp'', Dir [(''keep.txt'', Blob ''x'')])]"

text \<open>What the calls that export the model have in common with the text of their cells,
  for the model \<open>m\<close> and the dataframe \<open>d\<close> the serialization is given.\<close>

fun export_ok :: "'m \<Rightarrow> 'df \<Rightarrow> ('df, 'm, 'h) call \<Rightarrow> bool" where
  "export_ok m d (C_serializeToBundle m' u d') =
     (m' = m \<and> u = ''jar:file:/tmp/model.zip'' \<and> d' = d)"
| "export_ok m d (C_ZipFile n) = (n = ''/tmp/model.zip'')"
| "export_ok m d (C_extractall ms t) = (t = ''/tmp/model'')"
| "export_ok m d (C_tarfile_open n md) = (n = ''/tmp/model.tar.gz'' \<and> md = ''w:gz'')"
| "export_ok m d (C_tar_add t n a) =
     ((n = ''/tmp/model/bundle.json'' \<and> a = ''bundle.json'')
      \<or> (n = ''/tmp/model/root'' \<and> a = ''root''))"
| "export_ok m d c = True"

subsection \<open>The random split\<close>








section \<open>Properties\<close>

subsection \<open>Sequencing and the log\<close>

lemma replay_append:
  "replay X evs1 w = Some w1 \<Longrightarrow> last_outcome evs1 = None \<Longrightarrow>
   replay X (evs1 @ evs2) w = replay X evs2 w1"
proof (induction evs1 arbitrary: w)
  case Nil
  then show ?case by simp
next
  case (Cons ev evs1)
  obtain out w2 where p: "perform X (fst ev) w = (out, w2)" by (cases "perform X (fst ev) w")
  from Cons.prems(1) p have ok: "out = snd ev" "out = None \<or> evs1 = []" "replay X evs1 w2 = Some w1"
    by (auto split: if_splits)
  have none: "out = None"
  proof (cases "evs1 = []")
    case True
    with Cons.prems(2) ok(1) show ?thesis by (simp add: last_outcome_def)
  next
    case False
    with ok(2) show ?thesis by simp
  qed
  have lo: "last_outcome evs1 = None"
    using Cons.prems(2) by (cases "evs1 = []") (simp_all add: last_outcome_def)
  from Cons.IH[OF ok(3) lo] p ok(1) none show ?case by simp
qed

subsection \<open>The schema of a request\<close>

text \<open>
  C8. The serving schema never exposes the label. Its input columns are the first 8 fields
  of the CSV \<^verbatim>\<open>StructType\<close>, in order, with \<^verbatim>\<open>StringType\<close> written \<^verbatim>\<open>string\<close> and
  \<^verbatim>\<open>DoubleType\<close> written \<^verbatim>\<open>double\<close>; the 9th and last field is \<^verbatim>\<open>rings\<close>, which is no input
  column. In the pipeline \<^verbatim>\<open>rings\<close> is the label column of the regressor and no stage reads
  it as a feature, the \<^verbatim>\<open>VectorAssembler\<close> included. Each of the three requests carries 8
  values, one per input column, and none for \<^verbatim>\<open>rings\<close>.
\<close>

theorem serving_schema_excludes_label:
  "input_columns schema = map field_column (take 8 (struct_fields schema_struct))
   \<and> length (struct_fields schema_struct) = 9
   \<and> field_name (last (struct_fields schema_struct)) = ''rings''
   \<and> ''rings'' \<notin> set (map column_name (input_columns schema))
   \<and> concat (map label_cols (stages pipeline)) = [''rings'']
   \<and> ''rings'' \<notin> set (concat (map input_cols (stages pipeline)))
   \<and> ''rings'' \<notin> set (input_cols assembler)
   \<and> length (split_on (CHR '','') payload_csv) = 8
   \<and> length (payload_data payload_json) = 8
   \<and> length (payload_data payload_with_schema) = 8
   \<and> read_record schema (payload_data payload_json) ''rings'' = None
   \<and> read_record (the (get_item payload_with_schema ''schema''))
        (payload_data payload_with_schema) ''rings'' = None"
proof (intro conjI)
  show "input_columns schema = map field_column (take 8 (struct_fields schema_struct))"
    by (simp add: schema_def schema_struct_def field_column_def column_def)
  show "length (struct_fields schema_struct) = 9"
    by (simp add: schema_struct_def)
  show "field_name (last (struct_fields schema_struct)) = ''rings''"
    by (simp add: schema_struct_def)
  show "''rings'' \<notin> set (map column_name (input_columns schema))"
    by (simp add: schema_def)
  show "concat (map label_cols (stages pipeline)) = [''rings'']"
    by (simp add: pipeline_def sex_indexer_def sex_encoder_def assembler_def rf_def)
  show "''rings'' \<notin> set (concat (map input_cols (stages pipeline)))"
    by (simp add: pipeline_def sex_indexer_def sex_encoder_def assembler_def rf_def)
  show "''rings'' \<notin> set (input_cols assembler)"
    by (simp add: assembler_def)
  show "length (split_on (CHR '','') payload_csv) = 8"
    by (simp add: payload_csv_def)
  show "length (payload_data payload_json) = 8"
    by (simp add: payload_json_def)
  show "length (payload_data payload_with_schema) = 8"
    by (simp add: payload_with_schema_def)
  show "read_record schema (payload_data payload_json) ''rings'' = None"
    by (simp add: payload_json_def schema_def read_record_def)
  show "read_record (the (get_item payload_with_schema ''schema''))
        (payload_data payload_with_schema) ''rings'' = None"
    by (simp add: payload_with_schema_def read_record_def)
qed

theorem serving_schema_excludes_label_witness:
  "map column_name (input_columns schema) =
     [''sex'', ''length'', ''diameter'', ''height'', ''whole_weight'', ''shucked_weight'',
      ''viscera_weight'', ''shell_weight'']
   \<and> map field_name (struct_fields schema_struct) =
     [''sex'', ''length'', ''diameter'', ''height'', ''whole_weight'', ''shucked_weight'',
      ''viscera_weight'', ''shell_weight'', ''rings'']"
proof -
  have "input_columns schema = map field_column (take 8 (struct_fields schema_struct))"
    using serving_schema_excludes_label by blast
  then show ?thesis
    by (simp add: schema_struct_def field_column_def column_def)
qed

subsection \<open>The local disk\<close>

lemma lookup_Nil [simp]: "lookup n [] = Some n"
  by (simp add: lookup_def)

lemma lookup_Cons_Dir [simp]:
  "lookup (Dir es) (c # cs) = (case map_of es c of None \<Rightarrow> None | Some m \<Rightarrow> lookup m cs)"
  by (simp add: lookup_def split: option.splits)

lemma lookup_Cons_file [simp]:
  "\<not> is_dir n \<Longrightarrow> lookup n (c # cs) = None"
  by (cases n) (simp_all add: lookup_def)

lemma map_of_update [simp]: "map_of (AList.update k v es) = (map_of es)(k \<mapsto> v)"
  by (rule update_conv')

lemma map_of_delete [simp]: "map_of (AList.delete k es) = (map_of es)(k := None)"
  by (rule delete_conv')

lemma delete_not_dir [simp]: "\<not> is_dir n \<Longrightarrow> delete p n = n"
  by (cases n; cases p) simp_all

lemma delete_Cons_Dir:
  "delete (c # cs) (Dir es) =
     (if cs = [] then Dir (AList.delete c es)
      else case map_of es c of None \<Rightarrow> Dir es | Some n \<Rightarrow> Dir (AList.update c (delete cs n) es))"
  by (cases cs) (auto split: option.splits)

lemma is_dir_delete [simp]: "is_dir (delete p n) = is_dir n"
  by (induction p n rule: delete.induct) (simp_all split: option.splits)

lemma entry_at_delete:
  "p \<noteq> [] \<Longrightarrow> entry_at (delete p n) q = (if prefix p q then None else entry_at n q)"
proof (induction p arbitrary: n q)
  case Nil
  then show ?case by simp
next
  case (Cons c cs)
  show ?case
  proof (cases n)
    case (Dir es)
    show ?thesis
    proof (cases q)
      case Nil
      then show ?thesis using Dir by (simp add: entry_at_def delete_Cons_Dir split: option.splits)
    next
      case (Cons c' q')
      show ?thesis
      proof (cases "cs = []")
        case True
        then show ?thesis using Dir Cons by (simp add: entry_at_def delete_Cons_Dir)
      next
        case False
        show ?thesis
        proof (cases "map_of es c")
          case None
          then show ?thesis using Dir Cons False
            by (auto simp add: entry_at_def delete_Cons_Dir)
        next
          case (Some m)
          from Cons.IH[OF False, of m q'] show ?thesis using Dir Cons False Some
            by (auto simp add: entry_at_def delete_Cons_Dir)
        qed
      qed
    qed
  qed (simp_all add: entry_at_def, (cases q; simp)+)
qed


lemma stat_not_dir [simp]: "\<not> is_dir n \<Longrightarrow> stat n (c # cs) = Inl ENOTDIR"
  by (cases n) simp_all

lemma stat_delete_other:
  "\<not> prefix p q \<Longrightarrow> \<not> prefix q p \<Longrightarrow> stat (delete p n) q = stat n q"
proof (induction p arbitrary: n q)
  case Nil
  then show ?case by simp
next
  case (Cons c cs)
  from Cons.prems obtain c' q' where q: "q = c' # q'" by (cases q) auto
  show ?case
  proof (cases n)
    case (Dir es)
    show ?thesis
    proof (cases "cs = []")
      case True
      with Cons.prems q Dir show ?thesis by (auto simp: delete_Cons_Dir)
    next
      case False
      show ?thesis
      proof (cases "map_of es c")
        case None
        then show ?thesis using Dir False by (simp add: delete_Cons_Dir)
      next
        case (Some m)
        show ?thesis
        proof (cases "c' = c")
          case True
          with Cons.prems q have "\<not> prefix cs q'" "\<not> prefix q' cs" by auto
          from Cons.IH[OF this, of m] show ?thesis using Dir False Some q True
            by (simp add: delete_Cons_Dir)
        next
          case False
          then show ?thesis using Dir \<open>cs \<noteq> []\<close> Some q by (simp add: delete_Cons_Dir)
        qed
      qed
    qed
  qed simp_all
qed

lemma stat_delete_self:
  "p \<noteq> [] \<Longrightarrow> stat n p = Inr m \<Longrightarrow> stat (delete p n) p = Inl ENOENT"
proof (induction p arbitrary: n)
  case Nil
  then show ?case by simp
next
  case (Cons c cs)
  from Cons.prems(2) obtain es where n: "n = Dir es" by (cases n) auto
  from Cons.prems(2) n obtain k where k: "map_of es c = Some k" "stat k cs = Inr m"
    by (auto split: option.splits)
  show ?case
  proof (cases "cs = []")
    case True
    then show ?thesis using n by (simp add: delete_Cons_Dir)
  next
    case False
    from Cons.IH[OF False k(2)] show ?thesis using n k False by (simp add: delete_Cons_Dir)
  qed
qed

lemma stat_delete_above:
  "strict_prefix q p \<Longrightarrow> stat n q = Inr (Dir es) \<Longrightarrow> \<exists>es'. stat (delete p n) q = Inr (Dir es')"
proof (induction q arbitrary: n p)
  case Nil
  then have "is_dir (delete p n)" by simp
  then show ?case by (cases "delete p n") simp_all
next
  case (Cons c q)
  from Cons.prems(1) obtain p' where p: "p = c # p'" "strict_prefix q p'"
    by (cases p) (auto simp: strict_prefix_def)
  from Cons.prems(2) obtain ns where n: "n = Dir ns" by (cases n) auto
  from Cons.prems(2) n obtain k where k: "map_of ns c = Some k" "stat k q = Inr (Dir es)"
    by (auto split: option.splits)
  from p(2) have ne: "p' \<noteq> []" by (auto simp: strict_prefix_def)
  from Cons.IH[OF p(2) k(2)] show ?case using n k p ne by (simp add: delete_Cons_Dir)
qed

lemma components_zip: "components ''/tmp/model.zip'' = [''tmp'', ''model.zip'']"
  by (simp add: components_def)

lemma components_targz: "components ''/tmp/model.tar.gz'' = [''tmp'', ''model.tar.gz'']"
  by (simp add: components_def)

lemma components_model: "components ''/tmp/model'' = [''tmp'', ''model'']"
  by (simp add: components_def)

lemma os_remove_Inr:
  "os_remove name d = (Inr u, d') \<longleftrightarrow>
     (\<exists>f. stat d (components name) = Inr f \<and> \<not> is_dir f) \<and> d' = delete (components name) d"
  by (auto simp: os_remove_def split: sum.splits node.splits)

lemma rmtree_Inr:
  "rmtree name d = (Inr u, d') \<longleftrightarrow>
     (\<exists>es. stat d (components name) = Inr (Dir es)) \<and> d' = delete (components name) d"
  by (auto simp: rmtree_def split: sum.splits node.splits)

lemma invoke_on_disk_Inr:
  "invoke c (on_disk g) s = (Inr x, s') \<longleftrightarrow>
     (\<exists>d1. g (disk s) = (Inr x, d1) \<and> s' = s\<lparr>disk := d1, cloud := cloud s, trace := trace s @ [(c, None)]\<rparr>)"
  by (auto simp: invoke_def on_disk_def split: prod.splits)

lemma andthen_Inr:
  "andthen m f s = (Inr y, s') \<longleftrightarrow> (\<exists>x s1. m s = (Inr x, s1) \<and> f x s1 = (Inr y, s'))"
  by (auto simp: andthen_def split: prod.splits sum.splits)

lemma cleanup_Inr:
  "cell_cleanup s = (Inr u, s') \<longleftrightarrow>
     (\<exists>f. stat (disk s) [''tmp'', ''model.zip''] = Inr f \<and> \<not> is_dir f)
   \<and> (\<exists>f. stat (disk s) [''tmp'', ''model.tar.gz''] = Inr f \<and> \<not> is_dir f)
   \<and> (\<exists>es. stat (disk s) [''tmp'', ''model''] = Inr (Dir es))
   \<and> s' = s\<lparr>disk := delete [''tmp'', ''model''] (delete [''tmp'', ''model.tar.gz'']
                        (delete [''tmp'', ''model.zip''] (disk s))),
             cloud := cloud s,
             trace := trace s @ [(C_os_remove ''/tmp/model.zip'', None),
                                 (C_os_remove ''/tmp/model.tar.gz'', None),
                                 (C_rmtree ''/tmp/model'', None)]\<rparr>"
  by (auto simp: cell_cleanup_def os_remove_call_def rmtree_call_def andthen_Inr invoke_on_disk_Inr
      os_remove_Inr rmtree_Inr components_zip components_targz components_model stat_delete_other)

lemma stat_parent:
  "stat n (p @ [c]) = Inr f \<Longrightarrow> \<exists>es. stat n p = Inr (Dir es)"
proof (induction p arbitrary: n)
  case Nil
  then show ?case by (cases n) simp_all
next
  case (Cons a p)
  then show ?case by (cases n) (auto split: option.splits)
qed

text \<open>
  C9. When the cleanup cell runs through, the disk held the files \<^verbatim>\<open>/tmp/model.zip\<close> and
  \<^verbatim>\<open>/tmp/model.tar.gz\<close> and the directory \<^verbatim>\<open>/tmp/model\<close>; afterwards nothing is at these
  three paths or below them, and every other path holds what it held before. The world
  outside the disk, object storage included, is as it was. A serialization to
  \<^verbatim>\<open>jar:file:/tmp/model.zip\<close> on the cleaned disk passes the check for an existing file:
  it ends as the library's production of the bundle ends, and on success the bundle is
  written.
\<close>

theorem cleanup_removes_exactly_the_artifacts:
  assumes run: "cell_cleanup s = (Inr u, s')"
  shows "(\<exists>f. stat (disk s) [''tmp'', ''model.zip''] = Inr f \<and> \<not> is_dir f)
       \<and> (\<exists>f. stat (disk s) [''tmp'', ''model.tar.gz''] = Inr f \<and> \<not> is_dir f)
       \<and> (\<exists>es. stat (disk s) [''tmp'', ''model''] = Inr (Dir es))
       \<and> (\<forall>q. entry_at (disk s') q =
              (if prefix [''tmp'', ''model.zip''] q \<or> prefix [''tmp'', ''model.tar.gz''] q
                  \<or> prefix [''tmp'', ''model''] q
               then None else entry_at (disk s) q))
       \<and> cloud s' = cloud s
       \<and> (\<forall>X m df c.
             bundle_to_disk X m ''jar:file:/tmp/model.zip'' df (disk s', c) =
               (case ext_bundle X m df c of
                  (Inl e, c1) \<Rightarrow> (Inl e, disk s', c1)
                | (Inr ms, c1) \<Rightarrow>
                    (Inr (), store [''tmp'', ''model.zip''] (ZipFile ms) (disk s'), c1)))"
proof -
  let ?zip = "[''tmp'', ''model.zip'']" and ?tar = "[''tmp'', ''model.tar.gz'']"
    and ?model = "[''tmp'', ''model'']"
  from run obtain fz ft es where
    z: "stat (disk s) ?zip = Inr fz" "\<not> is_dir fz" and
    t: "stat (disk s) ?tar = Inr ft" "\<not> is_dir ft" and
    m: "stat (disk s) ?model = Inr (Dir es)" and
    d': "disk s' = delete ?model (delete ?tar (delete ?zip (disk s)))" and
    c': "cloud s' = cloud s"
    by (auto simp: cleanup_Inr)
  have frame: "\<forall>q. entry_at (disk s') q =
              (if prefix ?zip q \<or> prefix ?tar q \<or> prefix ?model q
               then None else entry_at (disk s) q)"
    by (simp add: d' entry_at_delete)
  have gone: "stat (disk s') ?zip = Inl ENOENT"
    using stat_delete_self[of ?zip "disk s" fz] z(1) by (simp add: d' stat_delete_other)
  from stat_parent[of "disk s" "[''tmp'']" "''model.zip''" fz] z(1)
  obtain es0 where "stat (disk s) [''tmp''] = Inr (Dir es0)" by auto
  from stat_delete_above[OF _ this, of ?zip]
  obtain es1 where "stat (delete ?zip (disk s)) [''tmp''] = Inr (Dir es1)"
    by (auto simp: strict_prefix_def)
  from stat_delete_above[OF _ this, of ?tar]
  obtain es2 where "stat (delete ?tar (delete ?zip (disk s))) [''tmp''] = Inr (Dir es2)"
    by (auto simp: strict_prefix_def)
  from stat_delete_above[OF _ this, of ?model]
  obtain es3 where tmp: "stat (disk s') [''tmp''] = Inr (Dir es3)"
    by (auto simp: strict_prefix_def d')
  have ser: "\<forall>X m df c.
             bundle_to_disk X m ''jar:file:/tmp/model.zip'' df (disk s', c) =
               (case ext_bundle X m df c of
                  (Inl e, c1) \<Rightarrow> (Inl e, disk s', c1)
                | (Inr ms, c1) \<Rightarrow>
                    (Inr (), store [''tmp'', ''model.zip''] (ZipFile ms) (disk s'), c1))"
    using gone tmp
    by (simp add: bundle_to_disk_def components_zip write_file_def split: prod.splits sum.splits)
  from z t m frame c' ser show ?thesis by blast
qed

theorem cleanup_removes_exactly_the_artifacts_witness:
  "fst (cell_cleanup (demo_world demo_exported)) = Inr ()
   \<and> disk (snd (cell_cleanup (demo_world demo_exported)))
       = Dir [(''tmp'', Dir [(''keep.txt'', Blob ''x'')])]
   \<and> entry_at (disk (snd (cell_cleanup (demo_world demo_exported)))) [''tmp'', ''model'', ''root''] = None
   \<and> entry_at (disk (snd (cell_cleanup (demo_world demo_exported)))) [''tmp'', ''keep.txt'']
       = Some (Blob ''x'')"
proof -
  define s1 :: "(nat, nat list, nat, string) world" where
    "s1 = \<lparr> disk = Dir [(''tmp'', Dir [(''keep.txt'', Blob ''x'')])], cloud = 0,
            trace = [(C_os_remove ''/tmp/model.zip'', None),
                     (C_os_remove ''/tmp/model.tar.gz'', None),
                     (C_rmtree ''/tmp/model'', None)] \<rparr>"
  have run: "cell_cleanup (demo_world demo_exported) = (Inr (), s1)"
    by (simp add: cell_cleanup_def os_remove_call_def rmtree_call_def andthen_def invoke_def
        on_disk_def os_remove_def rmtree_def components_zip components_targz components_model
        demo_world_def demo_exported_def s1_def)
  have fr: "\<forall>q. entry_at (disk s1) q =
              (if prefix [''tmp'', ''model.zip''] q \<or> prefix [''tmp'', ''model.tar.gz''] q
                  \<or> prefix [''tmp'', ''model''] q
               then None else entry_at (disk (demo_world demo_exported)) q)"
    by (rule cleanup_removes_exactly_the_artifacts[OF run,
          THEN conjunct2, THEN conjunct2, THEN conjunct2, THEN conjunct1])
  have a: "entry_at (disk s1) [''tmp'', ''model'', ''root''] = None"
    using spec[OF fr, of "[''tmp'', ''model'', ''root'']"] by simp
  have b: "entry_at (disk s1) [''tmp'', ''keep.txt'']
         = entry_at (disk (demo_world demo_exported)) [''tmp'', ''keep.txt'']"
    using spec[OF fr, of "[''tmp'', ''keep.txt'']"] by simp
  have c: "entry_at (disk (demo_world demo_exported)) [''tmp'', ''keep.txt''] = Some (Blob ''x'')"
    by (simp add: demo_world_def demo_exported_def entry_at_def)
  have d: "disk s1 = Dir [(''tmp'', Dir [(''keep.txt'', Blob ''x'')])]"
    by (simp add: s1_def)
  show ?thesis using a b c d by (simp add: run)
qed

lemma stat_append:
  "stat n (p @ q) = (case stat n p of Inl e \<Rightarrow> Inl e | Inr m \<Rightarrow> stat m q)"
proof (induction p arbitrary: n)
  case Nil
  then show ?case by simp
next
  case (Cons c p)
  then show ?case by (cases n) (simp_all split: option.splits)
qed

lemma stat_store_self:
  "stat n p \<noteq> Inl ENOTDIR \<Longrightarrow> stat (store p new n) (p @ q) = stat new q"
proof (induction p arbitrary: n)
  case Nil
  then show ?case by simp
next
  case (Cons c cs)
  from Cons.prems obtain es where n: "n = Dir es" by (cases n) auto
  show ?case
  proof (cases "map_of es c")
    case None
    have "stat (Dir []) cs \<noteq> Inl ENOTDIR" by (cases cs) simp_all
    from Cons.IH[OF this] show ?thesis using n None by simp
  next
    case (Some m)
    with Cons.prems n have "stat m cs \<noteq> Inl ENOTDIR" by simp
    from Cons.IH[OF this] show ?thesis using n Some by simp
  qed
qed

lemma stat_store_other:
  "\<not> prefix p q \<Longrightarrow> \<not> prefix q p \<Longrightarrow> stat (store p new n) q = stat n q"
proof (induction p arbitrary: n q)
  case Nil
  then show ?case by simp
next
  case (Cons c cs)
  from Cons.prems obtain c' q' where q: "q = c' # q'" by (cases q) auto
  show ?case
  proof (cases n)
    case (Dir es)
    show ?thesis
    proof (cases "c' = c")
      case False
      then show ?thesis using Dir q by simp
    next
      case True
      with Cons.prems q have inc: "\<not> prefix cs q'" "\<not> prefix q' cs" by auto
      then have ne: "q' \<noteq> []" by auto
      show ?thesis
      proof (cases "map_of es c")
        case None
        from Cons.IH[OF inc, of "Dir []"] ne show ?thesis using Dir q True None
          by (cases q') simp_all
      next
        case (Some m)
        from Cons.IH[OF inc, of m] show ?thesis using Dir q True Some by simp
      qed
    qed
  qed simp_all
qed

lemma stat_store_above:
  "stat n p \<noteq> Inl ENOTDIR \<Longrightarrow> strict_prefix q p \<Longrightarrow> \<exists>es. stat (store p new n) q = Inr (Dir es)"
proof (induction q arbitrary: n p)
  case Nil
  then obtain c cs where p: "p = c # cs" by (cases p) auto
  with Nil.prems obtain es where "n = Dir es" by (cases n) auto
  with p show ?case by simp
next
  case (Cons c q)
  from Cons.prems(2) obtain p' where p: "p = c # p'" "strict_prefix q p'"
    by (cases p) (auto simp: strict_prefix_def)
  from Cons.prems(1) p obtain es where n: "n = Dir es" by (cases n) auto
  show ?case
  proof (cases "map_of es c")
    case None
    have "stat (Dir []) p' \<noteq> Inl ENOTDIR" by (cases p') simp_all
    from Cons.IH[OF this p(2)] show ?thesis using n p None by simp
  next
    case (Some m)
    with Cons.prems(1) n p have "stat m p' \<noteq> Inl ENOTDIR" by simp
    from Cons.IH[OF this p(2)] show ?thesis using n p Some by simp
  qed
qed

lemma entry_at_store:
  assumes "stat n p \<noteq> Inl ENOTDIR"
  shows "entry_at (store p new n) q =
     (if prefix p q then entry_at new (drop (length p) q)
      else if strict_prefix q p then Some (Dir [])
      else entry_at n q)"
proof (cases "prefix p q")
  case True
  then obtain r where "q = p @ r" by (auto simp: prefix_def)
  with stat_store_self[OF assms, of new r] show ?thesis
    by (simp add: entry_at_def lookup_def)
next
  case False
  show ?thesis
  proof (cases "strict_prefix q p")
    case True
    from stat_store_above[OF assms True, of new] show ?thesis using False True
      by (auto simp: entry_at_def lookup_def)
  next
    case np: False
    with False have "\<not> prefix q p" by (auto simp: strict_prefix_def)
    from stat_store_other[OF False this] show ?thesis using False np
      by (simp add: entry_at_def lookup_def)
  qed
qed

lemma components_bundle_json:
  "components ''/tmp/model/bundle.json'' = [''tmp'', ''model'', ''bundle.json'']"
  by (simp add: components_def)

lemma components_root: "components ''/tmp/model/root'' = [''tmp'', ''model'', ''root'']"
  by (simp add: components_def)

lemma invoke_on_disk:
  "invoke c (on_disk g) s =
     (fst (g (disk s)),
      s\<lparr>disk := snd (g (disk s)), cloud := cloud s, trace := trace s @ [(c, outcome (fst (g (disk s))))]\<rparr>)"
  by (simp add: invoke_def on_disk_def split: prod.splits)

lemma stat_child:
  assumes "stat d (butlast p) = Inr (Dir es)" and "p \<noteq> []"
  shows "stat d p = (case map_of es (last p) of None \<Rightarrow> Inl ENOENT | Some m \<Rightarrow> Inr m)"
proof -
  from assms(2) have p: "p = butlast p @ [last p]" by simp
  show ?thesis
    by (subst p, subst stat_append) (simp add: assms(1) split: option.splits)
qed

lemma write_file_ok:
  assumes "stat d (butlast p) = Inr (Dir es)" and "p \<noteq> []" and "\<forall>es. stat d p \<noteq> Inr (Dir es)"
  shows "write_file p new d = Inr (store p new d)"
  using stat_child[OF assms(1,2)] assms(1,3)
  by (cases "map_of es (last p)")
     (auto simp: write_file_def split: sum.splits node.splits errno.splits)

lemma stat_writable:
  assumes "stat d (butlast p) = Inr (Dir es)" and "p \<noteq> []"
  shows "stat d p \<noteq> Inl ENOTDIR"
  using stat_child[OF assms] by (simp split: option.splits)

lemma repackage_run:
  assumes zip: "stat (disk s) [''tmp'', ''model.zip''] = Inr (ZipFile ms)"
    and ex: "extractall ms ''/tmp/model'' (disk s) = (Inr (), d1)"
    and b: "stat d1 [''tmp'', ''model'', ''bundle.json''] = Inr b"
    and r: "stat d1 [''tmp'', ''model'', ''root''] = Inr rt"
    and nd: "\<forall>es. stat d1 [''tmp'', ''model.tar.gz''] \<noteq> Inr (Dir es)"
  shows "\<exists>d2 d3 d4.
      d2 = store [''tmp'', ''model.tar.gz''] (TarGz []) d1
    \<and> d3 = store [''tmp'', ''model.tar.gz''] (TarGz [(''bundle.json'', b)]) d2
    \<and> d4 = store [''tmp'', ''model.tar.gz''] (TarGz [(''bundle.json'', b), (''root'', rt)]) d3
    \<and> stat d1 [''tmp'', ''model.tar.gz''] \<noteq> Inl ENOTDIR
    \<and> stat d2 [''tmp'', ''model.tar.gz''] \<noteq> Inl ENOTDIR
    \<and> stat d3 [''tmp'', ''model.tar.gz''] \<noteq> Inl ENOTDIR
    \<and> cell_repackage s =
        (Inr (), s\<lparr>disk := d4, cloud := cloud s,
                    trace := trace s @
                      [(C_ZipFile ''/tmp/model.zip'', None),
                       (C_extractall ms ''/tmp/model'', None),
                       (C_tarfile_open ''/tmp/model.tar.gz'' ''w:gz'', None),
                       (C_tar_add (TarFile ''/tmp/model.tar.gz'' [])
                          ''/tmp/model/bundle.json'' ''bundle.json'', None),
                       (C_tar_add (TarFile ''/tmp/model.tar.gz'' [(''bundle.json'', b)])
                          ''/tmp/model/root'' ''root'', None)]\<rparr>)"
proof -
  let ?T = "[''tmp'', ''model.tar.gz'']"
  define d2 where "d2 = store ?T (TarGz []) d1"
  define d3 where "d3 = store ?T (TarGz [(''bundle.json'', b)]) d2"
  define d4 where "d4 = store ?T (TarGz [(''bundle.json'', b), (''root'', rt)]) d3"
  from stat_parent[of d1 "[''tmp'', ''model'']" "''root''" rt] r
  obtain esm where "stat d1 [''tmp'', ''model''] = Inr (Dir esm)" by auto
  from stat_parent[of d1 "[''tmp'']" "''model''" "Dir esm"] this
  obtain est where tmp: "stat d1 [''tmp''] = Inr (Dir est)" by auto
  have w: "write_file ?T (TarGz []) d1 = Inr d2"
    using write_file_ok[of d1 ?T est "TarGz []"] tmp nd by (simp add: d2_def)
  have e1: "stat d1 ?T \<noteq> Inl ENOTDIR"
    using stat_writable[of d1 ?T est] tmp by simp
  have s2: "stat d2 ?T = Inr (TarGz [])"
    using stat_store_self[OF e1, of "TarGz []" "[]"] by (simp add: d2_def)
  then have e2: "stat d2 ?T \<noteq> Inl ENOTDIR" by simp
  have s3: "stat d3 ?T = Inr (TarGz [(''bundle.json'', b)])"
    using stat_store_self[OF e2, of "TarGz [(''bundle.json'', b)]" "[]"] by (simp add: d3_def)
  then have e3: "stat d3 ?T \<noteq> Inl ENOTDIR" by simp
  have b2: "stat d2 [''tmp'', ''model'', ''bundle.json''] = Inr b"
    using b by (simp add: d2_def stat_store_other)
  have r3: "stat d3 [''tmp'', ''model'', ''root''] = Inr rt"
    using r by (simp add: d3_def d2_def stat_store_other)
  have z: "ZipFile_open ''/tmp/model.zip'' (disk s) = (Inr ms, disk s)"
    using zip by (simp add: ZipFile_open_def components_zip)
  have o: "tarfile_open ''/tmp/model.tar.gz'' d1 = (Inr (TarFile ''/tmp/model.tar.gz'' []), d2)"
    using w by (simp add: tarfile_open_def components_targz)
  have a1: "tar_add (TarFile ''/tmp/model.tar.gz'' []) ''/tmp/model/bundle.json'' ''bundle.json'' d2
      = (Inr (TarFile ''/tmp/model.tar.gz'' [(''bundle.json'', b)]), d3)"
    using b2 by (simp add: tar_add_def components_targz components_bundle_json d3_def Let_def)
  have a2: "tar_add (TarFile ''/tmp/model.tar.gz'' [(''bundle.json'', b)]) ''/tmp/model/root'' ''root'' d3
      = (Inr (TarFile ''/tmp/model.tar.gz'' [(''bundle.json'', b), (''root'', rt)]), d4)"
    using r3 by (simp add: tar_add_def components_targz components_root d4_def Let_def)
  have run: "cell_repackage s =
        (Inr (), s\<lparr>disk := d4, cloud := cloud s,
                    trace := trace s @
                      [(C_ZipFile ''/tmp/model.zip'', None),
                       (C_extractall ms ''/tmp/model'', None),
                       (C_tarfile_open ''/tmp/model.tar.gz'' ''w:gz'', None),
                       (C_tar_add (TarFile ''/tmp/model.tar.gz'' [])
                          ''/tmp/model/bundle.json'' ''bundle.json'', None),
                       (C_tar_add (TarFile ''/tmp/model.tar.gz'' [(''bundle.json'', b)])
                          ''/tmp/model/root'' ''root'', None)]\<rparr>)"
    by (simp add: cell_repackage_def ZipFile_call_def extractall_call_def tarfile_open_call_def
        tar_add_call_def andthen_def return_def invoke_on_disk z ex o a1 a2)
  show ?thesis using run e1 e2 e3 by (simp add: d2_def d3_def d4_def)
qed


lemma write_file_Inr:
  assumes "write_file p new d = Inr d'"
  shows "d' = store p new d" and "stat d p \<noteq> Inl ENOTDIR" and "\<And>es. stat d p \<noteq> Inr (Dir es)"
  using assms
  by (auto simp: write_file_def split: sum.splits node.splits errno.splits)

lemma stat_below_file:
  assumes "stat d t = Inr (Blob x)" and "prefix t q"
  shows "q = t \<or> stat d q = Inl ENOTDIR"
proof -
  from assms(2) obtain r where q: "q = t @ r" by (auto simp: prefix_def)
  show ?thesis
  proof (cases r)
    case Nil
    with q show ?thesis by simp
  next
    case (Cons c cs)
    then show ?thesis using q assms(1) by (simp add: stat_append)
  qed
qed

lemma stat_above_file:
  assumes "stat d t = Inr (Blob x)" and "prefix q t"
  shows "q = t \<or> (\<exists>es. stat d q = Inr (Dir es))"
proof -
  from assms(2) obtain r where t: "t = q @ r" by (auto simp: prefix_def)
  show ?thesis
  proof (cases r)
    case Nil
    with t show ?thesis by simp
  next
    case (Cons c cs)
    from assms(1) t obtain n where n: "stat d q = Inr n" "stat n (c # cs) = Inr (Blob x)"
      using Cons by (auto simp: stat_append split: sum.splits)
    then show ?thesis by (cases n) auto
  qed
qed

lemma extract_member_preserves:
  assumes ex: "extract_member target m d = Inr d'"
    and t: "stat d t = Inr (Blob x)"
    and other: "is_dir_member (fst m) \<or> components target @ arcname_parts (fst m) \<noteq> t"
  shows "stat d' t = Inr (Blob x)"
proof -
  let ?t' = "components target @ arcname_parts (fst m)"
  let ?up = "butlast ?t'"
  define d1 where "d1 = (if ?up \<noteq> [] \<and> stat d ?up = Inl ENOENT then store ?up (Dir []) d else d)"
  have made: "(if ?up \<noteq> [] then
               (case stat d ?up of
                  Inl ENOENT \<Rightarrow> Inr (store ?up (Dir []) d)
                | Inl e \<Rightarrow> Inl (OSError e (fst m))
                | Inr n \<Rightarrow> Inr d)
             else Inr d) = Inr d1"
    using ex by (auto simp: extract_member_def Let_def d1_def split: sum.splits errno.splits if_splits)
  have t1: "stat d1 t = Inr (Blob x)"
  proof (cases "?up \<noteq> [] \<and> stat d ?up = Inl ENOENT")
    case False
    then show ?thesis using t by (auto simp: d1_def)
  next
    case True
    have "\<not> prefix ?up t" using stat_above_file[OF t, of ?up] True t by auto
    moreover have "\<not> prefix t ?up" using stat_below_file[OF t, of ?up] True t by auto
    ultimately show ?thesis using True t by (simp add: d1_def stat_store_other)
  qed
  from ex made have rest:
    "(if is_dir_member (fst m) then
                (case stat d1 ?t' of
                   Inr (Dir es) \<Rightarrow> Inr d1
                 | Inr f \<Rightarrow> Inl (OSError EEXIST (fst m))
                 | Inl ENOENT \<Rightarrow>
                     (case write_file ?t' (Dir []) d1 of
                        Inl e \<Rightarrow> Inl (OSError e (fst m))
                      | Inr fs2 \<Rightarrow> Inr fs2)
                 | Inl e \<Rightarrow> Inl (OSError e (fst m)))
              else
                (case write_file ?t' (Blob (snd m)) d1 of
                   Inl e \<Rightarrow> Inl (OSError e (fst m))
                 | Inr fs2 \<Rightarrow> Inr fs2)) = Inr d'"
    by (simp add: extract_member_def Let_def)
  show ?thesis
  proof (cases "is_dir_member (fst m)")
    case True
    show ?thesis
    proof (cases "stat d1 ?t'")
      case (Inr n)
      with rest True have "d' = d1" by (cases n) simp_all
      with t1 show ?thesis by simp
    next
      case (Inl e)
      with rest True have e: "e = ENOENT" and w: "write_file ?t' (Dir []) d1 = Inr d'"
        by (cases e; simp split: sum.splits)+
      have "\<not> prefix ?t' t" using stat_above_file[OF t1, of ?t'] Inl t1 by auto
      moreover have "\<not> prefix t ?t'" using stat_below_file[OF t1, of ?t'] Inl e t1 by auto
      ultimately show ?thesis using write_file_Inr(1)[OF w] t1 by (simp add: stat_store_other)
    qed
  next
    case False
    with other have ne: "?t' \<noteq> t" by simp
    from rest False have w: "write_file ?t' (Blob (snd m)) d1 = Inr d'"
      by (simp split: sum.splits)
    have "\<not> prefix ?t' t"
      using stat_above_file[OF t1, of ?t'] write_file_Inr(3)[OF w] ne by auto
    moreover have "\<not> prefix t ?t'"
      using stat_below_file[OF t1, of ?t'] write_file_Inr(2)[OF w] ne by auto
    ultimately show ?thesis using write_file_Inr(1)[OF w] t1 by (simp add: stat_store_other)
  qed
qed

lemma extract_member_file:
  assumes ex: "extract_member target m d = Inr d'" and f: "\<not> is_dir_member (fst m)"
  shows "stat d' (components target @ arcname_parts (fst m)) = Inr (Blob (snd m))"
proof -
  let ?t' = "components target @ arcname_parts (fst m)"
  from ex f obtain d1 where w: "write_file ?t' (Blob (snd m)) d1 = Inr d'"
    by (auto simp: extract_member_def Let_def split: sum.splits if_splits)
  from stat_store_self[OF write_file_Inr(2)[OF w], of "Blob (snd m)" "[]"] write_file_Inr(1)[OF w]
  show ?thesis by simp
qed

lemma extractall_preserves:
  assumes "extractall ms target d = (Inr (), d1)"
    and "stat d t = Inr (Blob x)"
    and "\<forall>m\<in>set ms. is_dir_member (fst m) \<or> components target @ arcname_parts (fst m) \<noteq> t"
  shows "stat d1 t = Inr (Blob x)"
  using assms
proof (induction ms arbitrary: d)
  case Nil
  then show ?case by simp
next
  case (Cons m ms)
  from Cons.prems(1) obtain d' where m: "extract_member target m d = Inr d'"
    and rest: "extractall ms target d' = (Inr (), d1)"
    by (auto split: sum.splits)
  from extract_member_preserves[OF m Cons.prems(2)] Cons.prems(3)
  have "stat d' t = Inr (Blob x)" by simp
  from Cons.IH[OF rest this] Cons.prems(3) show ?case by simp
qed

lemma extractall_append:
  "extractall (pre @ post) target d =
     (case extractall pre target d of
        (Inl e, d') \<Rightarrow> (Inl e, d')
      | (Inr u, d') \<Rightarrow> extractall post target d')"
  by (induction pre arbitrary: d) (auto split: sum.splits)

lemma extractall_file:
  assumes ex: "extractall (pre @ m # post) target d = (Inr (), d1)"
    and f: "\<not> is_dir_member (fst m)"
    and last: "\<forall>m'\<in>set post. is_dir_member (fst m') \<or> arcname_parts (fst m') \<noteq> arcname_parts (fst m)"
  shows "stat d1 (components target @ arcname_parts (fst m)) = Inr (Blob (snd m))"
proof -
  from ex obtain d2 d3 where "extractall pre target d = (Inr (), d2)"
    and m: "extract_member target m d2 = Inr d3"
    and post: "extractall post target d3 = (Inr (), d1)"
    by (auto simp: extractall_append split: prod.splits sum.splits)
  from extractall_preserves[OF post extract_member_file[OF m f]] last show ?thesis by simp
qed

text \<open>
  C1. The repackaging cell turns the zip bundle into a gzipped tar archive. Let the file
  \<^verbatim>\<open>/tmp/model.zip\<close> be a zip archive whose extraction into \<^verbatim>\<open>/tmp/model\<close> runs through,
  let the extracted bundle contain \<^verbatim>\<open>bundle.json\<close> and \<^verbatim>\<open>root\<close>, and let
  \<^verbatim>\<open>/tmp/model.tar.gz\<close> not be a directory. Then the cell runs through; the file
  \<^verbatim>\<open>/tmp/model.tar.gz\<close> is a tar archive whose top-level members are exactly
  \<^verbatim>\<open>bundle.json\<close> and \<^verbatim>\<open>root\<close>, in this order, each with the content it has in the extracted
  bundle; the extracted bundle and every other path of the disk are as the extraction left
  them; and every file member of the zip archive that no later file member overwrites is in
  \<^verbatim>\<open>/tmp/model\<close> under its name, with its data.
\<close>

theorem repackage_zip_to_targz:
  assumes zip: "stat (disk s) [''tmp'', ''model.zip''] = Inr (ZipFile ms)"
    and ex: "extractall ms ''/tmp/model'' (disk s) = (Inr (), d1)"
    and b: "stat d1 [''tmp'', ''model'', ''bundle.json''] = Inr b"
    and r: "stat d1 [''tmp'', ''model'', ''root''] = Inr rt"
    and nd: "\<forall>es. stat d1 [''tmp'', ''model.tar.gz''] \<noteq> Inr (Dir es)"
  shows "\<exists>s'. cell_repackage s = (Inr (), s')
      \<and> stat (disk s') [''tmp'', ''model.tar.gz'']
          = Inr (TarGz [(''bundle.json'', b), (''root'', rt)])
      \<and> stat (disk s') [''tmp'', ''model'', ''bundle.json''] = Inr b
      \<and> stat (disk s') [''tmp'', ''model'', ''root''] = Inr rt
      \<and> (\<forall>q. \<not> prefix [''tmp'', ''model.tar.gz''] q \<longrightarrow> entry_at (disk s') q = entry_at d1 q)
      \<and> cloud s' = cloud s
      \<and> (\<forall>pre m post.
            ms = pre @ m # post \<and> \<not> is_dir_member (fst m)
            \<and> (\<forall>m'\<in>set post. is_dir_member (fst m')
                  \<or> arcname_parts (fst m') \<noteq> arcname_parts (fst m))
            \<longrightarrow> stat (disk s') ([''tmp'', ''model''] @ arcname_parts (fst m)) = Inr (Blob (snd m)))"
proof -
  let ?T = "[''tmp'', ''model.tar.gz'']"
  from repackage_run[OF zip ex b r nd] obtain d2 d3 d4 s' where
    d2: "d2 = store ?T (TarGz []) d1" and
    d3: "d3 = store ?T (TarGz [(''bundle.json'', b)]) d2" and
    d4: "d4 = store ?T (TarGz [(''bundle.json'', b), (''root'', rt)]) d3" and
    e1: "stat d1 ?T \<noteq> Inl ENOTDIR" and e2: "stat d2 ?T \<noteq> Inl ENOTDIR" and
    e3: "stat d3 ?T \<noteq> Inl ENOTDIR" and
    run: "cell_repackage s = (Inr (), s')" and ds: "disk s' = d4" and cs: "cloud s' = cloud s"
    by auto
  have other: "\<And>q. \<not> prefix ?T q \<Longrightarrow> \<not> prefix q ?T \<Longrightarrow> stat d4 q = stat d1 q"
    by (simp add: d2 d3 d4 stat_store_other)
  have tar: "stat d4 ?T = Inr (TarGz [(''bundle.json'', b), (''root'', rt)])"
    using stat_store_self[OF e3, of "TarGz [(''bundle.json'', b), (''root'', rt)]" "[]"]
    by (simp add: d4)
  have b4: "stat d4 [''tmp'', ''model'', ''bundle.json''] = Inr b" using b by (simp add: other)
  have r4: "stat d4 [''tmp'', ''model'', ''root''] = Inr rt" using r by (simp add: other)
  from stat_parent[of d1 "[''tmp'', ''model'']" "''root''" rt] r
  obtain esm where "stat d1 [''tmp'', ''model''] = Inr (Dir esm)" by auto
  from stat_parent[of d1 "[''tmp'']" "''model''" "Dir esm"] this
  obtain est where tmp: "stat d1 [''tmp''] = Inr (Dir est)" by auto
  then obtain es0 where root: "stat d1 [] = Inr (Dir es0)"
    using stat_parent[of d1 "[]" "''tmp''" "Dir est"] by auto
  have frame: "\<forall>q. \<not> prefix ?T q \<longrightarrow> entry_at d4 q = entry_at d1 q"
  proof (intro allI impI)
    fix q assume np: "\<not> prefix ?T q"
    have above: "strict_prefix q ?T \<Longrightarrow> entry_at d1 q = Some (Dir [])"
    proof -
      assume "strict_prefix q ?T"
      then have "q = [] \<or> q = [''tmp'']"
        by (cases q) (auto simp: strict_prefix_def prefix_Cons)
      then show ?thesis using tmp root by (auto simp: entry_at_def lookup_def)
    qed
    have s4: "entry_at d4 q = (if strict_prefix q ?T then Some (Dir []) else entry_at d3 q)"
      unfolding d4 using np by (simp add: entry_at_store[OF e3])
    have s3: "entry_at d3 q = (if strict_prefix q ?T then Some (Dir []) else entry_at d2 q)"
      unfolding d3 using np by (simp add: entry_at_store[OF e2])
    have s2: "entry_at d2 q = (if strict_prefix q ?T then Some (Dir []) else entry_at d1 q)"
      unfolding d2 using np by (simp add: entry_at_store[OF e1])
    show "entry_at d4 q = entry_at d1 q"
      using above s2 s3 s4 by (cases "strict_prefix q ?T") simp_all
  qed
  have members: "\<forall>pre m post.
            ms = pre @ m # post \<and> \<not> is_dir_member (fst m)
            \<and> (\<forall>m'\<in>set post. is_dir_member (fst m')
                  \<or> arcname_parts (fst m') \<noteq> arcname_parts (fst m))
            \<longrightarrow> stat d4 ([''tmp'', ''model''] @ arcname_parts (fst m)) = Inr (Blob (snd m))"
  proof (intro allI impI, elim conjE)
    fix pre m post
    assume ms: "ms = pre @ m # post" and f: "\<not> is_dir_member (fst m)"
      and l: "\<forall>m'\<in>set post. is_dir_member (fst m') \<or> arcname_parts (fst m') \<noteq> arcname_parts (fst m)"
    from extractall_file[OF ex[unfolded ms] f l]
    have "stat d1 ([''tmp'', ''model''] @ arcname_parts (fst m)) = Inr (Blob (snd m))"
      by (simp add: components_model)
    then show "stat d4 ([''tmp'', ''model''] @ arcname_parts (fst m)) = Inr (Blob (snd m))"
      by (simp add: other prefix_Cons)
  qed
  from run tar b4 r4 frame cs members show ?thesis
    unfolding ds[symmetric] by blast
qed

theorem repackage_zip_to_targz_witness:
  "extractall demo_bundle ''/tmp/model'' demo_serialized = (Inr (), demo_extracted)
   \<and> (\<exists>s'. cell_repackage (demo_world demo_serialized) = (Inr (), s')
        \<and> stat (disk s') [''tmp'', ''model.tar.gz'']
            = Inr (TarGz [(''bundle.json'', Blob ''{}''),
                          (''root'', Dir [(''model.json'', Blob ''{}'')])]))"
proof -
  have zip: "stat (disk (demo_world demo_serialized)) [''tmp'', ''model.zip'']
               = Inr (ZipFile demo_bundle)"
    by (simp add: demo_world_def demo_serialized_def)
  have ex: "extractall demo_bundle ''/tmp/model'' (disk (demo_world demo_serialized))
              = (Inr (), demo_extracted)"
    by (simp add: demo_world_def demo_serialized_def demo_extracted_def demo_bundle_def
        extract_member_def components_model arcname_parts_def is_dir_member_def write_file_def)
  have b: "stat demo_extracted [''tmp'', ''model'', ''bundle.json''] = Inr (Blob ''{}'')"
    by (simp add: demo_extracted_def)
  have r: "stat demo_extracted [''tmp'', ''model'', ''root'']
             = Inr (Dir [(''model.json'', Blob ''{}'')])"
    by (simp add: demo_extracted_def)
  have nd: "\<forall>es. stat demo_extracted [''tmp'', ''model.tar.gz''] \<noteq> Inr (Dir es)"
    by (simp add: demo_extracted_def)
  from repackage_zip_to_targz[OF zip ex b r nd] ex show ?thesis
    by (auto simp: demo_world_def)
qed

lemma conforms_fail:
  assumes "conforms X P Q1 ls1 s (Inl e) s1"
  shows "conforms X P Q (ls1 @ ls2) s (Inl e) s1"
  using assms unfolding conforms_def
  by (auto intro: prefix_order.trans)

lemma conforms_seq:
  assumes a: "conforms X P Q1 ls1 s (Inr x) s1" and b: "conforms X P Q ls2 s1 r s'"
  shows "conforms X P Q (ls1 @ ls2) s r s'"
proof -
  from a obtain evs1 where e1:
    "trace s1 = trace s @ evs1" "list_all (\<lambda>ev. P (fst ev)) evs1"
    "map (\<lambda>ev. label (fst ev)) evs1 = ls1"
    "replay X evs1 (disk s, cloud s) = Some (disk s1, cloud s1)"
    "last_outcome evs1 = None"
    unfolding conforms_def by auto
  from b obtain evs2 where e2:
    "trace s' = trace s1 @ evs2" "list_all (\<lambda>ev. P (fst ev)) evs2"
    "if outcome r = None then map (\<lambda>ev. label (fst ev)) evs2 = ls2
     else prefix (map (\<lambda>ev. label (fst ev)) evs2) ls2"
    "replay X evs2 (disk s1, cloud s1) = Some (disk s', cloud s')"
    "last_outcome evs2 = outcome r"
    "case r of Inl e \<Rightarrow> True | Inr x \<Rightarrow> Q x"
    unfolding conforms_def by blast
  have rp: "replay X (evs1 @ evs2) (disk s, cloud s) = Some (disk s', cloud s')"
    using replay_append[OF e1(4) e1(5)] e2(4) by simp
  have lo: "last_outcome (evs1 @ evs2) = outcome r"
    using e1(5) e2(5) by (cases "evs2 = []") (auto simp: last_outcome_def)
  show ?thesis
    unfolding conforms_def
    using e1(1,2,3) e2(1,2,3,6) rp lo
    by (intro exI[of _ "evs1 @ evs2"]) (auto split: if_splits)
qed

lemma logged_return: "Q x \<Longrightarrow> logged X P Q [] (return x)"
  by (simp add: logged_def conforms_def return_def last_outcome_def)

lemma logged_invoke:
  assumes "P c" and "\<And>w. perform X c w = erase (f w)"
  shows "logged X P (\<lambda>x. True) [label c] (invoke c f)"
  unfolding logged_def
proof (intro allI impI)
  fix s r s'
  assume run: "invoke c f s = (r, s')"
  obtain r1 d1 c1 where f: "f (disk s, cloud s) = (r1, d1, c1)"
    by (cases "f (disk s, cloud s)") auto
  from run f have r: "r = r1" and s': "s' = s\<lparr>disk := d1, cloud := c1, trace := trace s @ [(c, outcome r1)]\<rparr>"
    by (auto simp add: invoke_def)
  have "perform X c (disk s, cloud s) = (outcome r1, d1, c1)"
    using assms(2)[of "(disk s, cloud s)"] f by simp
  then show "conforms X P (\<lambda>x. True) [label c] s r s'"
    unfolding conforms_def
    using assms(1) r s' by (intro exI[of _ "[(c, outcome r1)]"]) (simp add: last_outcome_def split: sum.splits)
qed

lemma andthen_run:
  assumes "andthen m f s = (r, s')"
  shows "(\<exists>e. m s = (Inl e, s') \<and> r = Inl e) \<or> (\<exists>x s1. m s = (Inr x, s1) \<and> f x s1 = (r, s'))"
  using assms by (auto simp: andthen_def split: prod.splits sum.splits)

lemma logged_andthen:
  assumes m: "logged X P Q1 ls1 m" and f: "\<And>x. Q1 x \<Longrightarrow> logged X P Q ls2 (f x)"
  shows "logged X P Q (ls1 @ ls2) (andthen m f)"
  unfolding logged_def
proof (intro allI impI)
  fix s r s'
  assume run: "andthen m f s = (r, s')"
  from andthen_run[OF run] show "conforms X P Q (ls1 @ ls2) s r s'"
  proof (elim disjE exE conjE)
    fix e assume "m s = (Inl e, s')" "r = Inl e"
    with m show ?thesis using conforms_fail unfolding logged_def by blast
  next
    fix x s1 assume ms: "m s = (Inr x, s1)" and fx: "f x s1 = (r, s')"
    from m ms have c1: "conforms X P Q1 ls1 s (Inr x) s1" unfolding logged_def by blast
    then have "Q1 x" unfolding conforms_def by auto
    from f[OF this] fx have "conforms X P Q ls2 s1 r s'" unfolding logged_def by blast
    from conforms_seq[OF c1 this] show ?thesis .
  qed
qed

lemma logged_case_prod:
  "(\<And>a b. x = (a, b) \<Longrightarrow> logged X P Q ls (f a b)) \<Longrightarrow> logged X P Q ls (case x of (a, b) \<Rightarrow> f a b)"
  by (cases x) simp

lemma logged_labels: "logged X P Q ls m \<Longrightarrow> ls = ls' \<Longrightarrow> logged X P Q ls' m"
  by simp

lemma logged_for_some_andthen:
  assumes m: "\<And>ep. logged X (PP ep) Q1 ls1 m"
    and f: "\<And>x. Q1 x \<Longrightarrow> logged_for_some X PP Q ls2 (f x)"
  shows "logged_for_some X PP Q (ls1 @ ls2) (andthen m f)"
  unfolding logged_for_some_def
proof (intro allI impI)
  fix s r s'
  assume run: "andthen m f s = (r, s')"
  from andthen_run[OF run] show "\<exists>ep. conforms X (PP ep) Q (ls1 @ ls2) s r s'"
  proof (elim disjE exE conjE)
    fix e assume "m s = (Inl e, s')" "r = Inl e"
    with m show ?thesis using conforms_fail unfolding logged_def by blast
  next
    fix x s1 assume ms: "m s = (Inr x, s1)" and fx: "f x s1 = (r, s')"
    from m ms have c1: "\<And>ep. conforms X (PP ep) Q1 ls1 s (Inr x) s1" unfolding logged_def by blast
    then have "Q1 x" unfolding conforms_def by auto
    from f[OF this] fx obtain ep where "conforms X (PP ep) Q ls2 s1 r s'"
      unfolding logged_for_some_def by blast
    from conforms_seq[OF c1 this] show ?thesis by blast
  qed
qed

lemma logged_for_some_then_return:
  assumes m: "logged_for_some X PP Q1 ls m" and q: "\<And>x. Q (g x)"
  shows "logged_for_some X PP Q ls (andthen m (\<lambda>x. return (g x)))"
  unfolding logged_for_some_def
proof (intro allI impI)
  fix s r s'
  assume run: "andthen m (\<lambda>x. return (g x)) s = (r, s')"
  from andthen_run[OF run] show "\<exists>ep. conforms X (PP ep) Q ls s r s'"
  proof (elim disjE exE conjE)
    fix e assume ms: "m s = (Inl e, s')" and r: "r = Inl e"
    from m ms obtain ep where "conforms X (PP ep) Q1 ls s (Inl e) s'"
      unfolding logged_for_some_def by blast
    then have "conforms X (PP ep) Q ls s (Inl e) s'" unfolding conforms_def by auto
    with r show ?thesis by blast
  next
    fix x s1 assume ms: "m s = (Inr x, s1)" and fx: "return (g x) s1 = (r, s')"
    from m ms obtain ep where "conforms X (PP ep) Q1 ls s (Inr x) s1"
      unfolding logged_for_some_def by blast
    then have "conforms X (PP ep) Q ls s (Inr (g x)) s1" using q unfolding conforms_def by auto
    with fx show ?thesis by (auto simp: return_def)
  qed
qed

lemma logged_for_some_I: "logged X (PP ep) Q ls m \<Longrightarrow> logged_for_some X PP Q ls m"
  unfolding logged_def logged_for_some_def by blast

lemma andthen_assoc: "andthen (andthen m f) g = andthen m (\<lambda>x. andthen (f x) g)"
  by (rule ext) (simp add: andthen_def split: prod.splits sum.splits)

lemma logged_labels_for_some:
  "logged_for_some X PP Q ls m \<Longrightarrow> ls = ls' \<Longrightarrow> logged_for_some X PP Q ls' m"
  by simp

lemma logged_return_True: "logged X P (\<lambda>x. True) [] (return x)"
  by (rule logged_return) simp

lemma andthen_return: "andthen (return x) f = f x"
  by (rule ext) (simp add: andthen_def return_def)

lemma logged_spark_read_csv:
  "P (C_read_csv n h sch) \<Longrightarrow> logged X P (\<lambda>x. True) [''spark.read.csv''] (spark_read_csv X n h sch)"
  unfolding spark_read_csv_def by (rule logged_labels[OF logged_invoke]) simp_all

lemma logged_df_show:
  "P (C_show d n) \<Longrightarrow> logged X P (\<lambda>x. True) [''DataFrame.show''] (df_show X d n)"
  unfolding df_show_def by (rule logged_labels[OF logged_invoke]) simp_all

lemma logged_randomSplit:
  "P (C_randomSplit d ws) \<Longrightarrow> logged X P (\<lambda>x. True) [''DataFrame.randomSplit''] (randomSplit X d ws)"
  unfolding randomSplit_def by (rule logged_labels[OF logged_invoke]) simp_all

lemma logged_fit:
  "P (C_fit p d) \<Longrightarrow> logged X P (\<lambda>x. True) [''Pipeline.fit''] (fit X p d)"
  unfolding fit_def by (rule logged_labels[OF logged_invoke]) simp_all

lemma logged_transform:
  "P (C_transform m d) \<Longrightarrow> logged X P (\<lambda>x. True) [''PipelineModel.transform''] (transform X m d)"
  unfolding transform_def by (rule logged_labels[OF logged_invoke]) simp_all

lemma logged_select:
  "P (C_select d cs) \<Longrightarrow> logged X P (\<lambda>x. True) [''DataFrame.select''] (select X d cs)"
  unfolding select_def by (rule logged_labels[OF logged_invoke]) simp_all

lemma logged_evaluate:
  "P (C_evaluate e d) \<Longrightarrow> logged X P (\<lambda>x. True) [''RegressionEvaluator.evaluate''] (evaluate X e d)"
  unfolding evaluate_def by (rule logged_labels[OF logged_invoke]) simp_all

lemma logged_serializeToBundle:
  "P (C_serializeToBundle m u d) \<Longrightarrow> logged X P (\<lambda>x. True) [''PipelineModel.serializeToBundle''] (serializeToBundle X m u d)"
  unfolding serializeToBundle_def by (rule logged_labels[OF logged_invoke]) simp_all

lemma logged_ZipFile_call:
  "P (C_ZipFile n) \<Longrightarrow> logged X P (\<lambda>x. True) [''zipfile.ZipFile''] (ZipFile_call n)"
  unfolding ZipFile_call_def by (rule logged_labels[OF logged_invoke]) simp_all

lemma logged_extractall_call:
  "P (C_extractall ms t) \<Longrightarrow> logged X P (\<lambda>x. True) [''ZipFile.extractall''] (extractall_call ms t)"
  unfolding extractall_call_def by (rule logged_labels[OF logged_invoke]) simp_all

lemma logged_tarfile_open_call:
  "P (C_tarfile_open n md) \<Longrightarrow> logged X P (\<lambda>x. True) [''tarfile.open''] (tarfile_open_call n md)"
  unfolding tarfile_open_call_def by (rule logged_labels[OF logged_invoke]) simp_all

lemma logged_tar_add_call:
  "P (C_tar_add t n a) \<Longrightarrow> logged X P (\<lambda>x. True) [''TarFile.add''] (tar_add_call t n a)"
  unfolding tar_add_call_def by (rule logged_labels[OF logged_invoke]) simp_all

lemma logged_boto3_resource:
  "P (C_boto3_resource n) \<Longrightarrow> logged X P (\<lambda>x. True) [''boto3.resource''] (boto3_resource X n)"
  unfolding boto3_resource_def by (rule logged_labels[OF logged_invoke]) simp_all

lemma logged_upload_file:
  "P (C_upload_file h b f k) \<Longrightarrow> logged X P (\<lambda>x. True) [''Bucket.upload_file''] (upload_file X h b f k)"
  unfolding upload_file_def by (rule logged_labels[OF logged_invoke]) simp_all

lemma logged_os_remove_call:
  "P (C_os_remove n) \<Longrightarrow> logged X P (\<lambda>x. True) [''os.remove''] (os_remove_call n)"
  unfolding os_remove_call_def by (rule logged_labels[OF logged_invoke]) simp_all

lemma logged_rmtree_call:
  "P (C_rmtree n) \<Longrightarrow> logged X P (\<lambda>x. True) [''shutil.rmtree''] (rmtree_call n)"
  unfolding rmtree_call_def by (rule logged_labels[OF logged_invoke]) simp_all

lemma logged_strftime:
  "P (C_strftime f) \<Longrightarrow> logged X P (\<lambda>x. True) [''time.strftime''] (strftime X f)"
  unfolding strftime_def by (rule logged_labels[OF logged_invoke]) simp_all

lemma logged_boto3_Session:
  "P (C_boto3_Session) \<Longrightarrow> logged X P (\<lambda>x. True) [''boto3.session.Session''] (boto3_Session X)"
  unfolding boto3_Session_def by (rule logged_labels[OF logged_invoke]) simp_all

lemma logged_boto3_client:
  "P (C_boto3_client n) \<Longrightarrow> logged X P (\<lambda>x. True) [''boto3.client''] (boto3_client X n)"
  unfolding boto3_client_def by (rule logged_labels[OF logged_invoke]) simp_all

lemma logged_sagemaker_Session:
  "P (C_sagemaker_Session b c r) \<Longrightarrow> logged X P (\<lambda>x. True) [''sagemaker.Session''] (sagemaker_Session X b c r)"
  unfolding sagemaker_Session_def by (rule logged_labels[OF logged_invoke]) simp_all

lemma logged_get_execution_role:
  "P (C_get_execution_role) \<Longrightarrow> logged X P (\<lambda>x. True) [''sagemaker.get_execution_role''] (get_execution_role X)"
  unfolding get_execution_role_def by (rule logged_labels[OF logged_invoke]) simp_all

lemma logged_deploy:
  "P (C_deploy m n t e) \<Longrightarrow> logged X P (\<lambda>x. True) [''SparkMLModel.deploy''] (deploy X m n t e)"
  unfolding deploy_def by (rule logged_labels[OF logged_invoke]) simp_all

lemma logged_predict:
  "P (C_predict p x) \<Longrightarrow> logged X P (\<lambda>x. True) [''Predictor.predict''] (predict X p x)"
  unfolding predict_def by (rule logged_labels[OF logged_invoke]) simp_all

lemma logged_delete_endpoint:
  "P (C_delete_endpoint h e) \<Longrightarrow> logged X P (\<lambda>x. True) [''Session.delete_endpoint''] (delete_endpoint X h e)"
  unfolding delete_endpoint_def by (rule logged_labels[OF logged_invoke]) simp_all

lemmas logged_calls = logged_spark_read_csv logged_df_show logged_randomSplit logged_fit logged_transform logged_select logged_evaluate logged_serializeToBundle logged_ZipFile_call logged_extractall_call logged_tarfile_open_call logged_tar_add_call logged_boto3_resource logged_upload_file logged_os_remove_call logged_rmtree_call logged_strftime logged_boto3_Session logged_boto3_client logged_sagemaker_Session logged_get_execution_role logged_deploy logged_predict logged_delete_endpoint

lemmas cell_defs = cell_read_def cell_fit_def cell_transform_def cell_evaluate_def
  cell_serialize_def cell_repackage_def cell_upload_def cell_cleanup_def cell_deploy_def
  cell_predict_csv_def cell_predict_json_def cell_predict_with_schema_def cell_delete_def

lemma training_logged:
  "logged X (call_ok X ep) (\<lambda>x. True) training_calls (training_segment X)"
  unfolding training_segment_def fit_and_evaluate_def export_model_def cell_defs
  apply (rule logged_labels)
   apply (rule logged_andthen logged_calls logged_case_prod logged_return_True
      | simp add: sparkml_data_def file_name_def os_path_join_def evaluator_def)+
  apply (simp add: training_calls_def)
  done

lemma hosting_logged:
  "logged_for_some X (call_ok X) (\<lambda>x. True) hosting_calls (hosting_segment X)"
  unfolding hosting_segment_def cell_defs andthen_assoc andthen_return prod.case
  apply (rule logged_labels_for_some)
   apply (rule logged_for_some_andthen)
    apply (rule logged_strftime)
    apply simp
   apply (rule_tac ep = "endpoint_name x" in logged_for_some_I)
   apply (rule logged_andthen logged_calls logged_case_prod logged_return_True
      | simp add: sparkml_model_def schema_json_def)+
  apply (simp add: hosting_calls_def)
  done

lemma notebook_logged:
  "logged_for_some X (call_ok X) (\<lambda>x. True) notebook_calls (notebook X)"
  unfolding notebook_def notebook_calls_def
  by (rule logged_for_some_andthen[OF training_logged])
     (rule logged_for_some_then_return[OF hosting_logged], simp)

lemma invoke_on_cloud_Inr:
  "invoke c (on_cloud g) s = (Inr x, s') \<longleftrightarrow>
     (\<exists>c1. g (cloud s) = (Inr x, c1)
        \<and> s' = s\<lparr>disk := disk s, cloud := c1, trace := trace s @ [(c, None)]\<rparr>)"
  by (auto simp: invoke_def on_cloud_def split: prod.splits)

lemma return_Inr: "return x s = (Inr y, s') \<longleftrightarrow> y = x \<and> s' = s"
  by (auto simp: return_def)

lemma fit_and_evaluate_Inr:
  assumes "fit_and_evaluate X s = (Inr v, s')"
  shows "\<exists>c1 c2 c3 c4 c5 c6 c7 c8 c9 sel.
      ext_read_csv X ''s3://<your-input-bucket>/abalone/abalone.csv'' False schema_struct (cloud s)
        = (Inr (total_df v), c1)
    \<and> ext_show X (total_df v) 5 c1 = (Inr (), c2)
    \<and> ext_randomSplit X (total_df v) [8 / 10, 2 / 10] c2 = (Inr (train_df v, validation_df v), c3)
    \<and> ext_fit X pipeline (train_df v) c3 = (Inr (model v), c4)
    \<and> ext_transform X (model v) (train_df v) c4 = (Inr (transformed_train_df v), c5)
    \<and> ext_transform X (model v) (validation_df v) c5 = (Inr (transformed_validation_df v), c6)
    \<and> ext_select X (transformed_validation_df v) [''prediction''] c6 = (Inr sel, c7)
    \<and> ext_show X sel 5 c7 = (Inr (), c8)
    \<and> ext_evaluate X evaluator (transformed_train_df v) c8 = (Inr (train_rmse v), c9)
    \<and> ext_evaluate X evaluator (transformed_validation_df v) c9 = (Inr (validation_rmse v), cloud s')
    \<and> disk s' = disk s
    \<and> trace s' = trace s @
        [ (C_read_csv ''s3://<your-input-bucket>/abalone/abalone.csv'' False schema_struct, None),
          (C_show (total_df v) 5, None),
          (C_randomSplit (total_df v) [8 / 10, 2 / 10], None),
          (C_fit pipeline (train_df v), None),
          (C_transform (model v) (train_df v), None),
          (C_transform (model v) (validation_df v), None),
          (C_select (transformed_validation_df v) [''prediction''], None),
          (C_show sel 5, None),
          (C_evaluate evaluator (transformed_train_df v), None),
          (C_evaluate evaluator (transformed_validation_df v), None) ]"
  using assms
  unfolding fit_and_evaluate_def cell_read_def cell_fit_def cell_transform_def cell_evaluate_def
    spark_read_csv_def df_show_def randomSplit_def fit_def transform_def select_def evaluate_def
  by (auto simp: andthen_Inr invoke_on_cloud_Inr return_Inr)

lemma replay_butlast:
  "replay X evs w = Some w' \<Longrightarrow> \<forall>ev\<in>set (butlast evs). snd ev = None"
proof (induction evs arbitrary: w)
  case Nil
  then show ?case by simp
next
  case (Cons ev evs)
  obtain out w1 where p: "perform X (fst ev) w = (out, w1)" by (cases "perform X (fst ev) w")
  with Cons.prems have ok: "out = snd ev" "out = None \<or> evs = []" "replay X evs w1 = Some w'"
    by (auto split: if_splits)
  from Cons.IH[OF ok(3)] ok(1,2) show ?case by auto
qed

lemma last_outcome_None:
  "last_outcome evs = None \<Longrightarrow> \<forall>ev\<in>set (butlast evs). snd ev = None \<Longrightarrow>
   \<forall>ev\<in>set evs. snd ev = None"
proof (cases "evs = []")
  case True
  then show ?thesis by simp
next
  case False
  assume a: "last_outcome evs = None" and b: "\<forall>ev\<in>set (butlast evs). snd ev = None"
  have "set (butlast evs @ [last evs]) = set (butlast evs) \<union> {last evs}" by simp
  with False have "set evs = set (butlast evs) \<union> {last evs}" by simp
  with a b False show ?thesis by (auto simp: last_outcome_def)
qed

lemma notebook_conforms:
  assumes "notebook X s = (r, s')"
  shows "\<exists>ep. conforms X (call_ok X ep) (\<lambda>x. True) notebook_calls s r s'"
  using notebook_logged[of X] assms unfolding logged_for_some_def by blast

lemmas wrapper_defs = spark_read_csv_def df_show_def randomSplit_def fit_def transform_def
  select_def evaluate_def serializeToBundle_def ZipFile_call_def extractall_call_def
  tarfile_open_call_def tar_add_call_def boto3_resource_def upload_file_def os_remove_call_def
  rmtree_call_def strftime_def boto3_Session_def boto3_client_def sagemaker_Session_def
  get_execution_role_def deploy_def predict_def delete_endpoint_def

lemmas run_defs = notebook_def training_segment_def hosting_segment_def fit_and_evaluate_def
  export_model_def cell_defs wrapper_defs andthen_def return_def invoke_def on_cloud_def
  on_disk_def bundle_to_disk_def file_to_bucket_def demo_externals_def demo_world_def
  demo_disk_def demo_bundle_def ZipFile_open_def tarfile_open_def tar_add_def os_remove_def
  rmtree_def write_file_def extract_member_def arcname_parts_def is_dir_member_def
  components_def Let_def

lemma demo_run:
  "fst (notebook demo_externals (demo_world demo_disk)) =
   Inr (\<lparr>total_df = [1, 2, 3, 4, 5], train_df = [1, 2, 3, 4], validation_df = [5], model = 4,
         transformed_train_df = [5, 6, 7, 8], transformed_validation_df = [9], train_rmse = 4,
         validation_rmse = 1\<rparr>, ''10.0'', ''10.0'', ''10.0'')"
  by (simp add: run_defs)

lemma demo_fit_and_evaluate:
  "fst (fit_and_evaluate demo_externals (demo_world demo_disk)) =
   Inr \<lparr>total_df = [1, 2, 3, 4, 5], train_df = [1, 2, 3, 4], validation_df = [5], model = 4,
         transformed_train_df = [5, 6, 7, 8], transformed_validation_df = [9], train_rmse = 4,
         validation_rmse = 1\<rparr>"
  by (simp add: run_defs)

lemma run_from_fst: "fst p = r \<Longrightarrow> p = (r, snd p)"
  by (cases p) simp

subsection \<open>Errors\<close>

text \<open>
  C6. No step of the notebook handles an exception. In every run, with any behaviour of
  the libraries, the library calls made are an initial part of the notebook's calls in the
  order of its text, each made once; the final disk and world are exactly what these calls
  produce one after the other; every call but the last returned; and the notebook raises
  an error exactly when the last call made raised it, with that same error. A run that
  raises nothing has made all the calls, and all of them returned.
\<close>

theorem errors_propagate_unchanged:
  assumes "notebook X s = (r, s')"
  shows "\<exists>evs. trace s' = trace s @ evs
     \<and> prefix (map (\<lambda>ev. label (fst ev)) evs) notebook_calls
     \<and> replay X evs (disk s, cloud s) = Some (disk s', cloud s')
     \<and> (\<forall>ev\<in>set (butlast evs). snd ev = None)
     \<and> (case r of
          Inl e \<Rightarrow> evs \<noteq> [] \<and> snd (last evs) = Some e
        | Inr v \<Rightarrow> (\<forall>ev\<in>set evs. snd ev = None)
                   \<and> map (\<lambda>ev. label (fst ev)) evs = notebook_calls)"
proof -
  from notebook_conforms[OF assms] obtain ep evs where e:
    "trace s' = trace s @ evs"
    "if outcome r = None then map (\<lambda>ev. label (fst ev)) evs = notebook_calls
     else prefix (map (\<lambda>ev. label (fst ev)) evs) notebook_calls"
    "replay X evs (disk s, cloud s) = Some (disk s', cloud s')"
    "last_outcome evs = outcome r"
    unfolding conforms_def by blast
  have pre: "prefix (map (\<lambda>ev. label (fst ev)) evs) notebook_calls"
    using e(2) by (auto split: if_splits)
  have bl: "\<forall>ev\<in>set (butlast evs). snd ev = None"
    by (rule replay_butlast[OF e(3)])
  have res: "case r of
          Inl e \<Rightarrow> evs \<noteq> [] \<and> snd (last evs) = Some e
        | Inr v \<Rightarrow> (\<forall>ev\<in>set evs. snd ev = None)
                   \<and> map (\<lambda>ev. label (fst ev)) evs = notebook_calls"
  proof (cases r)
    case (Inl err)
    with e(4) show ?thesis by (auto simp: last_outcome_def split: if_splits)
  next
    case (Inr v)
    with e(4) have "last_outcome evs = None" by simp
    from last_outcome_None[OF this bl] e(2) Inr show ?thesis by simp
  qed
  from e(1) pre e(3) bl res show ?thesis by (intro exI[of _ evs] conjI)
qed

theorem errors_propagate_unchanged_witness:
  "fst (notebook (demo_externals\<lparr>ext_deploy := (\<lambda>m n t e c. (Inl (External ''limit''), c))\<rparr>)
         (demo_world demo_disk)) = Inl (External ''limit'')
   \<and> snd (last (trace (snd (notebook
          (demo_externals\<lparr>ext_deploy := (\<lambda>m n t e c. (Inl (External ''limit''), c))\<rparr>)
          (demo_world demo_disk))))) = Some (External ''limit'')"
proof -
  let ?X = "demo_externals\<lparr>ext_deploy := (\<lambda>m n t e c. (Inl (External ''limit''), c))\<rparr>"
  have r: "fst (notebook ?X (demo_world demo_disk)) = Inl (External ''limit'')"
    by (simp add: run_defs)
  from errors_propagate_unchanged[OF run_from_fst[OF r]]
  obtain evs where "trace (snd (notebook ?X (demo_world demo_disk))) = trace (demo_world demo_disk) @ evs"
    and "evs \<noteq> [] \<and> snd (last evs) = Some (External ''limit'')"
    by (elim exE conjE) simp
  then show ?thesis using r by (simp add: demo_world_def)
qed

lemma label_deploy:
  "label c = ''SparkMLModel.deploy'' \<Longrightarrow> \<exists>m n t e. c = C_deploy m n t e"
  by (cases c) simp_all

subsection \<open>The schema in the environment of the container\<close>

text \<open>
  C2. In every run, the model that is deployed has the environment variable
  \<^verbatim>\<open>SAGEMAKER_SPARKML_SCHEMA\<close> set to \<^verbatim>\<open>json.dumps(schema, indent=2)\<close>, and a run that
  raises nothing has deployed it. The dictionary \<^verbatim>\<open>schema\<close> has the two keys \<^verbatim>\<open>input\<close> and
  \<^verbatim>\<open>output\<close>: \<^verbatim>\<open>input\<close> is the list of exactly 8 columns \<^verbatim>\<open>sex\<close> of type \<^verbatim>\<open>string\<close>, then
  \<^verbatim>\<open>length\<close>, \<^verbatim>\<open>diameter\<close>, \<^verbatim>\<open>height\<close>, \<^verbatim>\<open>whole_weight\<close>, \<^verbatim>\<open>shucked_weight\<close>,
  \<^verbatim>\<open>viscera_weight\<close>, \<^verbatim>\<open>shell_weight\<close> of type \<^verbatim>\<open>double\<close>; \<^verbatim>\<open>output\<close> is the one column
  \<^verbatim>\<open>prediction\<close> of type \<^verbatim>\<open>double\<close>.
\<close>

theorem schema_passed_in_environment:
  assumes "notebook X s = (r, s')"
  shows "\<exists>evs. trace s' = trace s @ evs
     \<and> (\<forall>ev\<in>set evs. \<forall>m n t e. fst ev = C_deploy m n t e \<longrightarrow>
           model_env m = [(''SAGEMAKER_SPARKML_SCHEMA'', ext_json_dumps X schema 2)])
     \<and> (\<forall>v. r = Inr v \<longrightarrow> (\<exists>ev\<in>set evs. \<exists>m n t e. fst ev = C_deploy m n t e))
     \<and> schema = JObject
          [ (''input'', JArray
               [ column ''sex'' ''string'', column ''length'' ''double'',
                 column ''diameter'' ''double'', column ''height'' ''double'',
                 column ''whole_weight'' ''double'', column ''shucked_weight'' ''double'',
                 column ''viscera_weight'' ''double'', column ''shell_weight'' ''double'' ]),
            (''output'', column ''prediction'' ''double'') ]
     \<and> length (input_columns schema) = 8"
proof -
  from notebook_conforms[OF assms] obtain ep evs where e:
    "trace s' = trace s @ evs"
    "list_all (\<lambda>ev. call_ok X ep (fst ev)) evs"
    "if outcome r = None then map (\<lambda>ev. label (fst ev)) evs = notebook_calls
     else prefix (map (\<lambda>ev. label (fst ev)) evs) notebook_calls"
    unfolding conforms_def by blast
  have ok: "\<And>ev. ev \<in> set evs \<Longrightarrow> call_ok X ep (fst ev)"
    using e(2) by (simp add: list_all_iff)
  have env: "\<forall>ev\<in>set evs. \<forall>m n t e. fst ev = C_deploy m n t e \<longrightarrow>
           model_env m = [(''SAGEMAKER_SPARKML_SCHEMA'', ext_json_dumps X schema 2)]"
    using ok by fastforce
  have dep: "\<forall>v. r = Inr v \<longrightarrow> (\<exists>ev\<in>set evs. \<exists>m n t e. fst ev = C_deploy m n t e)"
  proof (intro allI impI)
    fix v assume "r = Inr v"
    with e(3) have "map (\<lambda>ev. label (fst ev)) evs = notebook_calls" by simp
    moreover have "''SparkMLModel.deploy'' \<in> set notebook_calls"
      by (simp add: notebook_calls_def training_calls_def hosting_calls_def)
    ultimately have "''SparkMLModel.deploy'' \<in> set (map (\<lambda>ev. label (fst ev)) evs)" by simp
    then obtain ev where "ev \<in> set evs" "label (fst ev) = ''SparkMLModel.deploy''" by auto
    with label_deploy[of "fst ev"] show "\<exists>ev\<in>set evs. \<exists>m n t e. fst ev = C_deploy m n t e"
      by blast
  qed
  have sch: "schema = JObject
          [ (''input'', JArray
               [ column ''sex'' ''string'', column ''length'' ''double'',
                 column ''diameter'' ''double'', column ''height'' ''double'',
                 column ''whole_weight'' ''double'', column ''shucked_weight'' ''double'',
                 column ''viscera_weight'' ''double'', column ''shell_weight'' ''double'' ]),
            (''output'', column ''prediction'' ''double'') ]"
    by (simp add: schema_def column_def)
  have len: "length (input_columns schema) = 8"
    by (simp add: schema_def)
  from e(1) env dep sch len show ?thesis
    by (intro exI[of _ evs] conjI)
qed

theorem schema_passed_in_environment_witness:
  "\<exists>ev\<in>set (trace (snd (notebook demo_externals (demo_world demo_disk)))).
      \<exists>m n t e. fst ev = C_deploy m n t e
        \<and> map_of (model_env m) ''SAGEMAKER_SPARKML_SCHEMA'' = Some (ext_json_dumps demo_externals schema 2)"
proof -
  from schema_passed_in_environment[OF run_from_fst[OF demo_run]]
  obtain evs where t: "trace (snd (notebook demo_externals (demo_world demo_disk)))
                        = trace (demo_world demo_disk) @ evs"
    and env: "\<forall>ev\<in>set evs. \<forall>m n t e. fst ev = C_deploy m n t e \<longrightarrow>
           model_env m = [(''SAGEMAKER_SPARKML_SCHEMA'', ext_json_dumps demo_externals schema 2)]"
    and dep: "\<exists>ev\<in>set evs. \<exists>m n t e. fst ev = C_deploy m n t e"
    by (elim exE conjE) simp
  from dep obtain ev m n t e where ev: "ev \<in> set evs" "fst ev = C_deploy m n t e" by blast
  with env have "model_env m = [(''SAGEMAKER_SPARKML_SCHEMA'', ext_json_dumps demo_externals schema 2)]"
    by blast
  with ev t show ?thesis by (intro bexI[of _ ev] exI[of _ m] exI[of _ n] exI[of _ t] exI[of _ e]) (simp_all add: demo_world_def)
qed

subsection \<open>Training and evaluation\<close>

text \<open>
  C3. The transformers and the regressor are one pipeline of four stages in a fixed order:
  the string indexer of \<^verbatim>\<open>sex\<close>, the one-hot encoder of its output, the vector assembler of
  the encoded column and the 7 continuous columns, and the random forest regressor with
  label \<^verbatim>\<open>rings\<close>, features \<^verbatim>\<open>features\<close>, depth 6 and 18 trees. In this order every stage
  reads only columns of the CSV schema or outputs of earlier stages; with the assembler
  before the encoder this fails. When the cells up to the evaluation run through, the
  model is the result of fitting this pipeline to \<^verbatim>\<open>train_df\<close>, the first of the two
  dataframes of the split, and that is the only call of \<^verbatim>\<open>fit\<close>.
\<close>

theorem pipeline_fit_as_unit:
  assumes "fit_and_evaluate X s = (Inr v, s')"
  shows "stages pipeline =
       [ StringIndexer ''sex'' ''indexed_sex'',
         OneHotEncoderEstimator [''indexed_sex''] [''sex_vec''],
         VectorAssembler
           [ ''sex_vec'', ''length'', ''diameter'', ''height'', ''whole_weight'',
             ''shucked_weight'', ''viscera_weight'', ''shell_weight'' ] ''features'',
         RandomForestRegressor ''rings'' ''features'' 6 18 ]
     \<and> columns_flow (map field_name (struct_fields schema_struct)) (stages pipeline)
     \<and> \<not> columns_flow (map field_name (struct_fields schema_struct))
           [sex_indexer, assembler, sex_encoder, rf]
     \<and> (\<exists>c c'. ext_randomSplit X (total_df v) [8 / 10, 2 / 10] c
                  = (Inr (train_df v, validation_df v), c'))
     \<and> (\<exists>c c'. ext_fit X pipeline (train_df v) c = (Inr (model v), c'))
     \<and> (\<exists>evs. trace s' = trace s @ evs
           \<and> filter (\<lambda>c. label c = ''Pipeline.fit'') (map fst evs)
               = [C_fit pipeline (train_df v)])"
proof -
  have st: "stages pipeline =
       [ StringIndexer ''sex'' ''indexed_sex'',
         OneHotEncoderEstimator [''indexed_sex''] [''sex_vec''],
         VectorAssembler
           [ ''sex_vec'', ''length'', ''diameter'', ''height'', ''whole_weight'',
             ''shucked_weight'', ''viscera_weight'', ''shell_weight'' ] ''features'',
         RandomForestRegressor ''rings'' ''features'' 6 18 ]"
    by (simp add: pipeline_def sex_indexer_def sex_encoder_def assembler_def rf_def)
  have fl: "columns_flow (map field_name (struct_fields schema_struct)) (stages pipeline)"
    by (simp add: st schema_struct_def)
  have nfl: "\<not> columns_flow (map field_name (struct_fields schema_struct))
           [sex_indexer, assembler, sex_encoder, rf]"
    by (simp add: sex_indexer_def sex_encoder_def assembler_def rf_def schema_struct_def)
  from fit_and_evaluate_Inr[OF assms] obtain c2 c3 c4 evs where
    sp: "ext_randomSplit X (total_df v) [8 / 10, 2 / 10] c2 = (Inr (train_df v, validation_df v), c3)"
    and ft: "ext_fit X pipeline (train_df v) c3 = (Inr (model v), c4)"
    and tr: "trace s' = trace s @ evs"
    and fi: "filter (\<lambda>c. label c = ''Pipeline.fit'') (map fst evs) = [C_fit pipeline (train_df v)]"
    by (elim exE conjE) simp
  from st fl nfl sp ft tr fi show ?thesis by blast
qed

theorem pipeline_fit_as_unit_witness:
  "fst (fit_and_evaluate demo_externals (demo_world demo_disk)) =
     Inr \<lparr>total_df = [1, 2, 3, 4, 5], train_df = [1, 2, 3, 4], validation_df = [5], model = 4,
           transformed_train_df = [5, 6, 7, 8], transformed_validation_df = [9], train_rmse = 4,
           validation_rmse = 1\<rparr>
   \<and> (\<exists>c c'. ext_fit demo_externals pipeline [1, 2, 3, 4] c = (Inr 4, c'))"
proof -
  from pipeline_fit_as_unit[OF run_from_fst[OF demo_fit_and_evaluate]]
  have "\<exists>c c'. ext_fit demo_externals pipeline [1, 2, 3, 4] c = (Inr 4, c')"
    by (elim exE conjE) (simp, blast)
  with demo_fit_and_evaluate show ?thesis by simp
qed

text \<open>
  C7. The evaluation computes the metric for both datasets. One evaluator, configured with
  label column \<^verbatim>\<open>rings\<close>, prediction column \<^verbatim>\<open>prediction\<close> and metric \<^verbatim>\<open>rmse\<close>, is applied
  first to the transformed train dataframe and then to the transformed validation
  dataframe; the two are the results of transforming \<^verbatim>\<open>train_df\<close> and \<^verbatim>\<open>validation_df\<close>
  with the same model, the one fitted to \<^verbatim>\<open>train_df\<close>. These are the only calls of
  \<^verbatim>\<open>transform\<close> and \<^verbatim>\<open>evaluate\<close>.
\<close>

theorem rmse_on_both_datasets:
  assumes "fit_and_evaluate X s = (Inr v, s')"
  shows "evaluator = RegressionEvaluator ''rings'' ''prediction'' ''rmse''
     \<and> (\<exists>c1 c2 c3 c4 c5 c6.
           ext_fit X pipeline (train_df v) c1 = (Inr (model v), c2)
         \<and> ext_transform X (model v) (train_df v) c2 = (Inr (transformed_train_df v), c3)
         \<and> ext_transform X (model v) (validation_df v) c3 = (Inr (transformed_validation_df v), c4)
         \<and> ext_evaluate X evaluator (transformed_train_df v) c5 = (Inr (train_rmse v), c6)
         \<and> ext_evaluate X evaluator (transformed_validation_df v) c6
             = (Inr (validation_rmse v), cloud s'))
     \<and> (\<exists>evs. trace s' = trace s @ evs
           \<and> filter (\<lambda>c. label c = ''PipelineModel.transform''
                        \<or> label c = ''RegressionEvaluator.evaluate'') (map fst evs)
               = [ C_transform (model v) (train_df v),
                   C_transform (model v) (validation_df v),
                   C_evaluate evaluator (transformed_train_df v),
                   C_evaluate evaluator (transformed_validation_df v) ])"
proof -
  from fit_and_evaluate_Inr[OF assms] obtain c3 c4 c5 c6 c8 c9 evs where
    ft: "ext_fit X pipeline (train_df v) c3 = (Inr (model v), c4)"
    and t1: "ext_transform X (model v) (train_df v) c4 = (Inr (transformed_train_df v), c5)"
    and t2: "ext_transform X (model v) (validation_df v) c5 = (Inr (transformed_validation_df v), c6)"
    and e1: "ext_evaluate X evaluator (transformed_train_df v) c8 = (Inr (train_rmse v), c9)"
    and e2: "ext_evaluate X evaluator (transformed_validation_df v) c9
               = (Inr (validation_rmse v), cloud s')"
    and tr: "trace s' = trace s @ evs"
    and fi: "filter (\<lambda>c. label c = ''PipelineModel.transform''
                        \<or> label c = ''RegressionEvaluator.evaluate'') (map fst evs)
               = [ C_transform (model v) (train_df v),
                   C_transform (model v) (validation_df v),
                   C_evaluate evaluator (transformed_train_df v),
                   C_evaluate evaluator (transformed_validation_df v) ]"
    by (elim exE conjE) simp
  have ev: "evaluator = RegressionEvaluator ''rings'' ''prediction'' ''rmse''"
    by (simp add: evaluator_def)
  from ev ft t1 t2 e1 e2 tr fi show ?thesis by blast
qed

theorem rmse_on_both_datasets_witness:
  "fst (fit_and_evaluate demo_externals (demo_world demo_disk)) =
     Inr \<lparr>total_df = [1, 2, 3, 4, 5], train_df = [1, 2, 3, 4], validation_df = [5], model = 4,
           transformed_train_df = [5, 6, 7, 8], transformed_validation_df = [9], train_rmse = 4,
           validation_rmse = 1\<rparr>
   \<and> (\<exists>c c'. ext_evaluate demo_externals evaluator [9] c = (Inr 1, c'))"
proof -
  from rmse_on_both_datasets[OF run_from_fst[OF demo_fit_and_evaluate]]
  have "\<exists>c c'. ext_evaluate demo_externals evaluator [9] c = (Inr 1, c')"
    by (elim exE conjE) (simp, blast)
  with demo_fit_and_evaluate show ?thesis by simp
qed

lemma invoke_run: "invoke c f s = (r, s') \<Longrightarrow> trace s' = trace s @ [(c, outcome r)]"
  by (auto simp: invoke_def split: prod.splits)

lemma no_label_in_prefix:
  assumes "prefix (map (\<lambda>ev. label (fst ev)) evs) ls" and "l \<notin> set ls"
  shows "filter (\<lambda>c. label c = l) (map fst evs) = []"
proof -
  from assms(1) have "set (map (\<lambda>ev. label (fst ev)) evs) \<subseteq> set ls" by (rule set_mono_prefix)
  with assms(2) show ?thesis by (auto simp: filter_empty_conv)
qed

lemma logged_Inl:
  assumes "logged X P Q ls m" and "m s = (Inl e, s')"
  shows "\<exists>evs. trace s' = trace s @ evs \<and> prefix (map (\<lambda>ev. label (fst ev)) evs) ls
           \<and> list_all (\<lambda>ev. P (fst ev)) evs"
proof -
  from assms have "conforms X P Q ls s (Inl e) s'" unfolding logged_def by blast
  then show ?thesis unfolding conforms_def by auto
qed

lemma logged_Inr:
  assumes "logged X P Q ls m" and "m s = (Inr x, s')"
  shows "\<exists>evs. trace s' = trace s @ evs \<and> map (\<lambda>ev. label (fst ev)) evs = ls
           \<and> list_all (\<lambda>ev. P (fst ev)) evs"
proof -
  from assms have "conforms X P Q ls s (Inr x) s'" unfolding logged_def by blast
  then show ?thesis unfolding conforms_def by auto
qed

lemma fit_and_evaluate_logged:
  "logged X (\<lambda>c. True) (\<lambda>x. True) (take 10 training_calls) (fit_and_evaluate X)"
  unfolding fit_and_evaluate_def cell_defs
  apply (rule logged_labels)
   apply (rule logged_andthen logged_calls logged_case_prod logged_return_True | simp)+
  apply (simp add: training_calls_def)
  done

lemma rest_logged:
  "logged X (export_ok m d) (\<lambda>x. True) (drop 10 notebook_calls)
     (andthen (andthen (export_model X m d) (\<lambda>u. return v))
        (\<lambda>vars. andthen (hosting_segment X) (\<lambda>responses. return (vars, responses))))"
  unfolding export_model_def hosting_segment_def cell_defs andthen_assoc andthen_return prod.case
  apply (rule logged_labels)
   apply (rule logged_andthen logged_calls logged_case_prod logged_return_True | simp)+
  apply (simp add: notebook_calls_def training_calls_def hosting_calls_def)
  done

lemma notebook_split:
  "notebook X =
     andthen (fit_and_evaluate X) (\<lambda>v.
       andthen (andthen (export_model X (model v) (transformed_validation_df v)) (\<lambda>u. return v))
         (\<lambda>vars. andthen (hosting_segment X) (\<lambda>responses. return (vars, responses))))"
  by (simp add: notebook_def training_segment_def andthen_assoc)

lemma serialized_is_fitted:
  assumes "notebook X s = (r, s')"
  shows "\<exists>evs. trace s' = trace s @ evs
     \<and> (\<forall>ev\<in>set evs. \<forall>m u d. fst ev = C_serializeToBundle m u d \<longrightarrow>
           u = ''jar:file:/tmp/model.zip''
           \<and> (\<exists>tr va c1 c2 c3 c4. (C_fit pipeline tr, None) \<in> set evs
                 \<and> ext_fit X pipeline tr c1 = (Inr m, c2)
                 \<and> ext_transform X m va c3 = (Inr d, c4)))
     \<and> list_all (\<lambda>ev. \<forall>n. fst ev = C_ZipFile n \<longrightarrow> n = ''/tmp/model.zip'') evs
     \<and> list_all (\<lambda>ev. \<forall>ms t. fst ev = C_extractall ms t \<longrightarrow> t = ''/tmp/model'') evs
     \<and> list_all (\<lambda>ev. \<forall>n md. fst ev = C_tarfile_open n md \<longrightarrow> n = ''/tmp/model.tar.gz'') evs"
proof -
  let ?ser = "''PipelineModel.serializeToBundle''"
  from assms have run: "andthen (fit_and_evaluate X) (\<lambda>v.
       andthen (andthen (export_model X (model v) (transformed_validation_df v)) (\<lambda>u. return v))
         (\<lambda>vars. andthen (hosting_segment X) (\<lambda>responses. return (vars, responses)))) s = (r, s')"
    by (simp add: notebook_split)
  from andthen_run[OF run] show ?thesis
  proof (elim disjE exE conjE)
    fix e assume f: "fit_and_evaluate X s = (Inl e, s')"
    from logged_Inl[OF fit_and_evaluate_logged f] obtain evs where
      t: "trace s' = trace s @ evs"
      and p: "prefix (map (\<lambda>ev. label (fst ev)) evs) (take 10 training_calls)"
      by blast
    have none: "\<And>l. l \<notin> set (take 10 training_calls) \<Longrightarrow> \<forall>ev\<in>set evs. label (fst ev) \<noteq> l"
    proof -
      fix l assume "l \<notin> set (take 10 training_calls)"
      moreover from p have "set (map (\<lambda>ev. label (fst ev)) evs) \<subseteq> set (take 10 training_calls)"
        by (rule set_mono_prefix)
      ultimately show "\<forall>ev\<in>set evs. label (fst ev) \<noteq> l" by auto
    qed
    have a: "\<forall>ev\<in>set evs. label (fst ev) \<noteq> ?ser"
      and b: "\<forall>ev\<in>set evs. label (fst ev) \<noteq> ''zipfile.ZipFile''"
      and c: "\<forall>ev\<in>set evs. label (fst ev) \<noteq> ''ZipFile.extractall''"
      and d: "\<forall>ev\<in>set evs. label (fst ev) \<noteq> ''tarfile.open''"
      by (rule none, simp add: training_calls_def)+
    show ?thesis
      using t a b c d by (intro exI[of _ evs]) (auto simp: list_all_iff)
  next
    fix v s1
    assume f: "fit_and_evaluate X s = (Inr v, s1)"
      and rest: "andthen (andthen (export_model X (model v) (transformed_validation_df v)) (\<lambda>u. return v))
         (\<lambda>vars. andthen (hosting_segment X) (\<lambda>responses. return (vars, responses))) s1 = (r, s')"
    from fit_and_evaluate_Inr[OF f] obtain c3 c4 c5 c6 evs1 where
      ft: "ext_fit X pipeline (train_df v) c3 = (Inr (model v), c4)"
      and tf: "ext_transform X (model v) (validation_df v) c5 = (Inr (transformed_validation_df v), c6)"
      and t1: "trace s1 = trace s @ evs1"
      and in1: "(C_fit pipeline (train_df v), None) \<in> set evs1"
      and l1: "map (\<lambda>ev. label (fst ev)) evs1 = take 10 training_calls"
      by (elim exE conjE) (simp add: training_calls_def)
    have "\<exists>evs2. trace s' = trace s1 @ evs2
        \<and> list_all (\<lambda>ev. export_ok (model v) (transformed_validation_df v) (fst ev)) evs2"
      using logged_Inl[OF rest_logged, of X "model v" "transformed_validation_df v" v s1 _ s']
        logged_Inr[OF rest_logged, of X "model v" "transformed_validation_df v" v s1 _ s'] rest
      by (cases r) blast+
    then obtain evs2 where
      t2: "trace s' = trace s1 @ evs2"
      and ok: "list_all (\<lambda>ev. export_ok (model v) (transformed_validation_df v) (fst ev)) evs2"
      by blast
    have ok2: "\<And>ev. ev \<in> set evs2 \<Longrightarrow> export_ok (model v) (transformed_validation_df v) (fst ev)"
      using ok by (simp add: list_all_iff)
    have lab1: "\<And>ev. ev \<in> set evs1 \<Longrightarrow> label (fst ev) \<in> set (take 10 training_calls)"
      using l1 by (metis image_eqI list.set_map)
    have tt: "trace s' = trace s @ (evs1 @ evs2)" using t1 t2 by simp
    have ser: "\<forall>ev\<in>set (evs1 @ evs2). \<forall>m u d. fst ev = C_serializeToBundle m u d \<longrightarrow>
           u = ''jar:file:/tmp/model.zip''
           \<and> (\<exists>tr va c1 c2 c3 c4. (C_fit pipeline tr, None) \<in> set (evs1 @ evs2)
                 \<and> ext_fit X pipeline tr c1 = (Inr m, c2)
                 \<and> ext_transform X m va c3 = (Inr d, c4))"
    proof (intro ballI allI impI)
      fix ev m u d
      assume ev: "ev \<in> set (evs1 @ evs2)" and c: "fst ev = C_serializeToBundle m u d"
      have "ev \<notin> set evs1"
      proof
        assume "ev \<in> set evs1"
        from lab1[OF this] c show False by (simp add: training_calls_def)
      qed
      with ev have "ev \<in> set evs2" by simp
      from ok2[OF this] c have "m = model v" "u = ''jar:file:/tmp/model.zip''"
        "d = transformed_validation_df v" by simp_all
      with ft tf in1 show "u = ''jar:file:/tmp/model.zip''
           \<and> (\<exists>tr va c1 c2 c3 c4. (C_fit pipeline tr, None) \<in> set (evs1 @ evs2)
                 \<and> ext_fit X pipeline tr c1 = (Inr m, c2)
                 \<and> ext_transform X m va c3 = (Inr d, c4))"
        by auto
    qed
    have names: "\<And>ev. ev \<in> set (evs1 @ evs2) \<Longrightarrow>
        (\<forall>n. fst ev = C_ZipFile n \<longrightarrow> n = ''/tmp/model.zip'')
      \<and> (\<forall>ms t. fst ev = C_extractall ms t \<longrightarrow> t = ''/tmp/model'')
      \<and> (\<forall>n md. fst ev = C_tarfile_open n md \<longrightarrow> n = ''/tmp/model.tar.gz'')"
    proof -
      fix ev assume "ev \<in> set (evs1 @ evs2)"
      then consider "ev \<in> set evs1" | "ev \<in> set evs2" by auto
      then show "(\<forall>n. fst ev = C_ZipFile n \<longrightarrow> n = ''/tmp/model.zip'')
      \<and> (\<forall>ms t. fst ev = C_extractall ms t \<longrightarrow> t = ''/tmp/model'')
      \<and> (\<forall>n md. fst ev = C_tarfile_open n md \<longrightarrow> n = ''/tmp/model.tar.gz'')"
      proof cases
        case 1
        from lab1[OF this] show ?thesis by (auto simp: training_calls_def)
      next
        case 2
        from ok2[OF this] show ?thesis by auto
      qed
    qed
    show ?thesis
      using tt ser names by (intro exI[of _ "evs1 @ evs2"]) (simp add: list_all_iff)
  qed
qed


subsection \<open>The order of the workflow\<close>

text \<open>
  C4. The workflow is a straight line with a fixed order of effects. In every run, with
  any behaviour of the libraries, the library calls made are an initial part of the
  notebook's calls in the order of its text; the final disk and world are exactly what
  these calls, performed by the library functions one after the other, produce; all calls
  but the last returned, and the run raises exactly when the last call raised; a run that
  raises nothing makes all the calls. In this order the model is serialized, the bundle is
  repackaged and uploaded, the local files are removed, then the model is deployed, then
  the three requests are made, and the deletion of the endpoint is the last call. The model
  that is serialized is the one \<^verbatim>\<open>fit\<close> returned, to \<^verbatim>\<open>/tmp/model.zip\<close>; this file is the
  one opened and extracted to \<^verbatim>\<open>/tmp/model\<close>; the archive written and uploaded is
  \<^verbatim>\<open>/tmp/model.tar.gz\<close>, and it goes where the deployed model's data is read from.
  Deployment, every request and the deletion carry one and the same endpoint name.
\<close>

theorem workflow_order:
  assumes "notebook X s = (r, s')"
  shows "\<exists>evs ep. trace s' = trace s @ evs
     \<and> prefix (map (\<lambda>ev. label (fst ev)) evs) notebook_calls
     \<and> (\<forall>v. r = Inr v \<longrightarrow> map (\<lambda>ev. label (fst ev)) evs = notebook_calls)
     \<and> replay X evs (disk s, cloud s) = Some (disk s', cloud s')
     \<and> (\<forall>ev\<in>set (butlast evs). snd ev = None)
     \<and> (case r of
          Inl e \<Rightarrow> evs \<noteq> [] \<and> snd (last evs) = Some e
        | Inr v \<Rightarrow> (\<forall>ev\<in>set evs. snd ev = None))
     \<and> (\<forall>ev\<in>set evs. \<forall>m u d. fst ev = C_serializeToBundle m u d \<longrightarrow>
           u = ''jar:file:/tmp/model.zip''
           \<and> (\<exists>tr va c1 c2 c3 c4. (C_fit pipeline tr, None) \<in> set evs
                 \<and> ext_fit X pipeline tr c1 = (Inr m, c2)
                 \<and> ext_transform X m va c3 = (Inr d, c4)))
     \<and> (\<forall>ev\<in>set evs. \<forall>n. fst ev = C_ZipFile n \<longrightarrow> n = ''/tmp/model.zip'')
     \<and> (\<forall>ev\<in>set evs. \<forall>ms t. fst ev = C_extractall ms t \<longrightarrow> t = ''/tmp/model'')
     \<and> (\<forall>ev\<in>set evs. \<forall>n md. fst ev = C_tarfile_open n md \<longrightarrow> n = ''/tmp/model.tar.gz'')
     \<and> (\<forall>ev\<in>set evs. \<forall>h b f k. fst ev = C_upload_file h b f k \<longrightarrow>
           f = ''/tmp/model.tar.gz'' \<and> ''s3://'' @ b @ ''/'' @ k = sparkml_data)
     \<and> (\<forall>ev\<in>set evs. \<forall>m n t e. fst ev = C_deploy m n t e \<longrightarrow>
           e = ep \<and> model_data m = sparkml_data)
     \<and> (\<forall>ev\<in>set evs. \<forall>p x. fst ev = C_predict p x \<longrightarrow> predictor_endpoint p = ep)
     \<and> (\<forall>ev\<in>set evs. \<forall>h e. fst ev = C_delete_endpoint h e \<longrightarrow> e = ep)
     \<and> drop 10 notebook_calls =
         [ ''PipelineModel.serializeToBundle'', ''zipfile.ZipFile'', ''ZipFile.extractall'',
           ''tarfile.open'', ''TarFile.add'', ''TarFile.add'', ''boto3.resource'',
           ''Bucket.upload_file'', ''os.remove'', ''os.remove'', ''shutil.rmtree'',
           ''time.strftime'', ''boto3.session.Session'', ''boto3.client'', ''boto3.client'',
           ''sagemaker.Session'', ''sagemaker.get_execution_role'', ''SparkMLModel.deploy'',
           ''Predictor.predict'', ''Predictor.predict'', ''Predictor.predict'',
           ''Session.delete_endpoint'' ]"
proof -
  from notebook_conforms[OF assms] obtain ep evs where e:
    "trace s' = trace s @ evs"
    "list_all (\<lambda>ev. call_ok X ep (fst ev)) evs"
    "if outcome r = None then map (\<lambda>ev. label (fst ev)) evs = notebook_calls
     else prefix (map (\<lambda>ev. label (fst ev)) evs) notebook_calls"
    "replay X evs (disk s, cloud s) = Some (disk s', cloud s')"
    "last_outcome evs = outcome r"
    unfolding conforms_def by blast
  from serialized_is_fitted[OF assms] obtain evs' where e':
    "trace s' = trace s @ evs'"
    "\<forall>ev\<in>set evs'. \<forall>m u d. fst ev = C_serializeToBundle m u d \<longrightarrow>
           u = ''jar:file:/tmp/model.zip''
           \<and> (\<exists>tr va c1 c2 c3 c4. (C_fit pipeline tr, None) \<in> set evs'
                 \<and> ext_fit X pipeline tr c1 = (Inr m, c2)
                 \<and> ext_transform X m va c3 = (Inr d, c4))"
    "list_all (\<lambda>ev. \<forall>n. fst ev = C_ZipFile n \<longrightarrow> n = ''/tmp/model.zip'') evs'"
    "list_all (\<lambda>ev. \<forall>ms t. fst ev = C_extractall ms t \<longrightarrow> t = ''/tmp/model'') evs'"
    "list_all (\<lambda>ev. \<forall>n md. fst ev = C_tarfile_open n md \<longrightarrow> n = ''/tmp/model.tar.gz'') evs'"
    by blast
  from e(1) e'(1) have same: "evs' = evs" by simp
  have ok: "\<And>ev. ev \<in> set evs \<Longrightarrow> call_ok X ep (fst ev)"
    using e(2) by (simp add: list_all_iff)
  have pre: "prefix (map (\<lambda>ev. label (fst ev)) evs) notebook_calls"
    using e(3) by (auto split: if_splits)
  have all: "\<forall>v. r = Inr v \<longrightarrow> map (\<lambda>ev. label (fst ev)) evs = notebook_calls"
    using e(3) by auto
  have bl: "\<forall>ev\<in>set (butlast evs). snd ev = None"
    by (rule replay_butlast[OF e(4)])
  have res: "case r of
          Inl e \<Rightarrow> evs \<noteq> [] \<and> snd (last evs) = Some e
        | Inr v \<Rightarrow> (\<forall>ev\<in>set evs. snd ev = None)"
  proof (cases r)
    case (Inl err)
    with e(5) show ?thesis by (auto simp: last_outcome_def split: if_splits)
  next
    case (Inr v)
    with e(5) have "last_outcome evs = None" by simp
    from last_outcome_None[OF this bl] Inr show ?thesis by simp
  qed
  have ser: "\<forall>ev\<in>set evs. \<forall>m u d. fst ev = C_serializeToBundle m u d \<longrightarrow>
           u = ''jar:file:/tmp/model.zip''
           \<and> (\<exists>tr va c1 c2 c3 c4. (C_fit pipeline tr, None) \<in> set evs
                 \<and> ext_fit X pipeline tr c1 = (Inr m, c2)
                 \<and> ext_transform X m va c3 = (Inr d, c4))"
    using e'(2) unfolding same .
  have zf: "\<forall>ev\<in>set evs. \<forall>n. fst ev = C_ZipFile n \<longrightarrow> n = ''/tmp/model.zip''"
    using e'(3) unfolding same by (simp add: list_all_iff)
  have xa: "\<forall>ev\<in>set evs. \<forall>ms t. fst ev = C_extractall ms t \<longrightarrow> t = ''/tmp/model''"
    using e'(4) unfolding same by (simp add: list_all_iff)
  have tf: "\<forall>ev\<in>set evs. \<forall>n md. fst ev = C_tarfile_open n md \<longrightarrow> n = ''/tmp/model.tar.gz''"
    using e'(5) unfolding same by (simp add: list_all_iff)
  have up: "\<forall>ev\<in>set evs. \<forall>h b f k. fst ev = C_upload_file h b f k \<longrightarrow>
           f = ''/tmp/model.tar.gz'' \<and> ''s3://'' @ b @ ''/'' @ k = sparkml_data"
    using ok by fastforce
  have dep: "\<forall>ev\<in>set evs. \<forall>m n t e. fst ev = C_deploy m n t e \<longrightarrow>
           e = ep \<and> model_data m = sparkml_data"
    using ok by fastforce
  have pr: "\<forall>ev\<in>set evs. \<forall>p x. fst ev = C_predict p x \<longrightarrow> predictor_endpoint p = ep"
    using ok by fastforce
  have del: "\<forall>ev\<in>set evs. \<forall>h e. fst ev = C_delete_endpoint h e \<longrightarrow> e = ep"
    using ok by fastforce
  have ord: "drop 10 notebook_calls =
         [ ''PipelineModel.serializeToBundle'', ''zipfile.ZipFile'', ''ZipFile.extractall'',
           ''tarfile.open'', ''TarFile.add'', ''TarFile.add'', ''boto3.resource'',
           ''Bucket.upload_file'', ''os.remove'', ''os.remove'', ''shutil.rmtree'',
           ''time.strftime'', ''boto3.session.Session'', ''boto3.client'', ''boto3.client'',
           ''sagemaker.Session'', ''sagemaker.get_execution_role'', ''SparkMLModel.deploy'',
           ''Predictor.predict'', ''Predictor.predict'', ''Predictor.predict'',
           ''Session.delete_endpoint'' ]"
    by (simp add: notebook_calls_def training_calls_def hosting_calls_def)
  from e(1) pre all e(4) bl res ser zf xa tf up dep pr del ord show ?thesis
    by (intro exI[of _ evs] exI[of _ ep] conjI)
qed

theorem workflow_order_witness:
  "map (\<lambda>ev. label (fst ev)) (trace (snd (notebook demo_externals (demo_world demo_disk))))
     = notebook_calls
   \<and> last notebook_calls = ''Session.delete_endpoint''
   \<and> replay demo_externals (trace (snd (notebook demo_externals (demo_world demo_disk))))
        (demo_disk, 0)
      = Some (disk (snd (notebook demo_externals (demo_world demo_disk))),
              cloud (snd (notebook demo_externals (demo_world demo_disk))))"
proof -
  from workflow_order[OF run_from_fst[OF demo_run]]
  obtain evs where
    "trace (snd (notebook demo_externals (demo_world demo_disk))) = trace (demo_world demo_disk) @ evs"
    and "map (\<lambda>ev. label (fst ev)) evs = notebook_calls"
    and "replay demo_externals evs (disk (demo_world demo_disk), cloud (demo_world demo_disk))
      = Some (disk (snd (notebook demo_externals (demo_world demo_disk))),
              cloud (snd (notebook demo_externals (demo_world demo_disk))))"
    by (elim exE conjE) simp
  then show ?thesis
    by (simp add: demo_world_def notebook_calls_def training_calls_def hosting_calls_def)
qed

subsection \<open>The payloads of the requests\<close>

lemma cell_deploy_logged:
  "logged X (\<lambda>c. True) (\<lambda>x. True) (take 7 hosting_calls) (cell_deploy X)"
  unfolding cell_defs
  apply (rule logged_labels)
   apply (rule logged_andthen logged_calls logged_case_prod logged_return_True | simp)+
  apply (simp add: hosting_calls_def)
  done

lemma requests_run:
  assumes "andthen (cell_predict_csv X sess ep) (\<lambda>r1.
           andthen (cell_predict_json X sess ep) (\<lambda>r2.
           andthen (cell_predict_with_schema X sess ep) (\<lambda>r3.
           andthen (cell_delete X sess ep) (\<lambda>u.
           return (r1, r2, r3))))) s = (r, s')"
  shows "\<exists>evs. trace s' = trace s @ evs
     \<and> prefix (filter (\<lambda>c. label c = ''Predictor.predict'') (map fst evs))
         [ C_predict (Predictor ep sess CSVSerializer) (JString payload_csv),
           C_predict (Predictor ep sess JSONSerializer) payload_json,
           C_predict (Predictor ep sess JSONSerializer) payload_with_schema ]
     \<and> (\<forall>v. r = Inr v \<longrightarrow> filter (\<lambda>c. label c = ''Predictor.predict'') (map fst evs) =
         [ C_predict (Predictor ep sess CSVSerializer) (JString payload_csv),
           C_predict (Predictor ep sess JSONSerializer) payload_json,
           C_predict (Predictor ep sess JSONSerializer) payload_with_schema ])"
  using assms
  unfolding cell_predict_csv_def cell_predict_json_def cell_predict_with_schema_def
    cell_delete_def predict_def delete_endpoint_def
  by (auto simp: andthen_def return_def invoke_def on_cloud_def split: prod.splits sum.splits)

lemma hosting_requests:
  fixes X :: "('c, 'df, 'm, 'h, 'r) externals" and s :: "('c, 'df, 'm, 'h) world"
  assumes "hosting_segment X s = (r, s')"
  shows "\<exists>evs ep sess. trace s' = trace s @ evs
     \<and> prefix (filter (\<lambda>c. label c = ''Predictor.predict'') (map fst evs))
         [ C_predict (Predictor ep sess CSVSerializer) (JString payload_csv),
           C_predict (Predictor ep sess JSONSerializer) payload_json,
           C_predict (Predictor ep sess JSONSerializer) payload_with_schema ]
     \<and> (\<forall>v. r = Inr v \<longrightarrow> filter (\<lambda>c. label c = ''Predictor.predict'') (map fst evs) =
         [ C_predict (Predictor ep sess CSVSerializer) (JString payload_csv),
           C_predict (Predictor ep sess JSONSerializer) payload_json,
           C_predict (Predictor ep sess JSONSerializer) payload_with_schema ])"
proof -
  have np: "''Predictor.predict'' \<notin> set (take 7 hosting_calls)"
    by (simp add: hosting_calls_def)
  from andthen_run[OF assms[unfolded hosting_segment_def]] show ?thesis
  proof (elim disjE exE conjE)
    fix e assume d: "cell_deploy X s = (Inl e, s')" and r: "r = Inl e"
    from logged_Inl[OF cell_deploy_logged d] obtain evs where
      t: "trace s' = trace s @ evs"
      and p: "prefix (map (\<lambda>ev. label (fst ev)) evs) (take 7 hosting_calls)"
      by blast
    from no_label_in_prefix[OF p np] t r show ?thesis by auto
  next
    fix x s1
    assume d: "cell_deploy X s = (Inr x, s1)"
      and rest: "(case x of (session, endpoint) \<Rightarrow>
           andthen (cell_predict_csv X session endpoint) (\<lambda>r1.
           andthen (cell_predict_json X session endpoint) (\<lambda>r2.
           andthen (cell_predict_with_schema X session endpoint) (\<lambda>r3.
           andthen (cell_delete X session endpoint) (\<lambda>u.
           return (r1, r2, r3)))))) s1 = (r, s')"
    obtain sess ep where x: "x = (sess, ep)" by (cases x)
    from logged_Inr[OF cell_deploy_logged d] obtain evs1 where
      t1: "trace s1 = trace s @ evs1"
      and p: "map (\<lambda>ev. label (fst ev)) evs1 = take 7 hosting_calls"
      by blast
    from p have "prefix (map (\<lambda>ev. label (fst ev)) evs1) (take 7 hosting_calls)" by simp
    from no_label_in_prefix[OF this np]
    have n1: "filter (\<lambda>c. label c = ''Predictor.predict'') (map fst evs1) = []" .
    from rest x requests_run[of X sess ep s1 r s'] obtain evs2 where
      t2: "trace s' = trace s1 @ evs2"
      and p2: "prefix (filter (\<lambda>c. label c = ''Predictor.predict'') (map fst evs2))
         [ C_predict (Predictor ep sess CSVSerializer) (JString payload_csv),
           C_predict (Predictor ep sess JSONSerializer) payload_json,
           C_predict (Predictor ep sess JSONSerializer) payload_with_schema ]"
      and q2: "\<forall>v. r = Inr v \<longrightarrow> filter (\<lambda>c. label c = ''Predictor.predict'') (map fst evs2) =
         [ C_predict (Predictor ep sess CSVSerializer) (JString payload_csv),
           C_predict (Predictor ep sess JSONSerializer) payload_json,
           C_predict (Predictor ep sess JSONSerializer) payload_with_schema ]"
      by auto
    show ?thesis
      using t1 t2 n1 p2 q2
      by (intro exI[of _ "evs1 @ evs2"] exI[of _ ep] exI[of _ sess]) simp
  qed
qed

lemma notebook_requests:
  assumes "notebook X s = (r, s')"
  shows "\<exists>evs ep sess. trace s' = trace s @ evs
     \<and> prefix (filter (\<lambda>c. label c = ''Predictor.predict'') (map fst evs))
         [ C_predict (Predictor ep sess CSVSerializer) (JString payload_csv),
           C_predict (Predictor ep sess JSONSerializer) payload_json,
           C_predict (Predictor ep sess JSONSerializer) payload_with_schema ]
     \<and> (\<forall>v. r = Inr v \<longrightarrow> filter (\<lambda>c. label c = ''Predictor.predict'') (map fst evs) =
         [ C_predict (Predictor ep sess CSVSerializer) (JString payload_csv),
           C_predict (Predictor ep sess JSONSerializer) payload_json,
           C_predict (Predictor ep sess JSONSerializer) payload_with_schema ])"
proof -
  have np: "''Predictor.predict'' \<notin> set training_calls"
    by (simp add: training_calls_def)
  from andthen_run[OF assms[unfolded notebook_def]] show ?thesis
  proof (elim disjE exE conjE)
    fix e assume d: "training_segment X s = (Inl e, s')" and r: "r = Inl e"
    from logged_Inl[OF training_logged d] obtain evs where
      t: "trace s' = trace s @ evs"
      and p: "prefix (map (\<lambda>ev. label (fst ev)) evs) training_calls"
      by blast
    from no_label_in_prefix[OF p np] t r show ?thesis by auto
  next
    fix vars s1
    assume d: "training_segment X s = (Inr vars, s1)"
      and rest: "andthen (hosting_segment X) (\<lambda>responses. return (vars, responses)) s1 = (r, s')"
    from logged_Inr[OF training_logged d] obtain evs1 where
      t1: "trace s1 = trace s @ evs1"
      and p: "map (\<lambda>ev. label (fst ev)) evs1 = training_calls"
      by blast
    from p have "prefix (map (\<lambda>ev. label (fst ev)) evs1) training_calls" by simp
    from no_label_in_prefix[OF this np]
    have n1: "filter (\<lambda>c. label c = ''Predictor.predict'') (map fst evs1) = []" .
    from andthen_run[OF rest] obtain rh where
      h: "hosting_segment X s1 = (rh, s')" and rr: "\<And>v. r = Inr v \<Longrightarrow> \<exists>w. rh = Inr w"
      by (auto simp: return_def)
    from hosting_requests[OF h] obtain evs2 ep sess where
      t2: "trace s' = trace s1 @ evs2"
      and p2: "prefix (filter (\<lambda>c. label c = ''Predictor.predict'') (map fst evs2))
         [ C_predict (Predictor ep sess CSVSerializer) (JString payload_csv),
           C_predict (Predictor ep sess JSONSerializer) payload_json,
           C_predict (Predictor ep sess JSONSerializer) payload_with_schema ]"
      and q2: "\<forall>v. rh = Inr v \<longrightarrow> filter (\<lambda>c. label c = ''Predictor.predict'') (map fst evs2) =
         [ C_predict (Predictor ep sess CSVSerializer) (JString payload_csv),
           C_predict (Predictor ep sess JSONSerializer) payload_json,
           C_predict (Predictor ep sess JSONSerializer) payload_with_schema ]"
      by blast
    have q: "\<forall>v. r = Inr v \<longrightarrow> filter (\<lambda>c. label c = ''Predictor.predict'') (map fst (evs1 @ evs2)) =
         [ C_predict (Predictor ep sess CSVSerializer) (JString payload_csv),
           C_predict (Predictor ep sess JSONSerializer) payload_json,
           C_predict (Predictor ep sess JSONSerializer) payload_with_schema ]"
      using rr q2 n1 by auto
    show ?thesis
      using t1 t2 n1 p2 q
      by (intro exI[of _ "evs1 @ evs2"] exI[of _ ep] exI[of _ sess]) simp
  qed
qed


text \<open>
  C5. The third request overrides the schema by a consistent permutation. In every run,
  with any behaviour of the libraries, the requests made are, in this order, the CSV
  payload, the JSON payload \<^verbatim>\<open>payload_json\<close> and the payload with a schema
  \<^verbatim>\<open>payload_with_schema\<close>, the last two through the JSON serializer, all to one endpoint (a
  run that raises makes an initial part of them, a run that raises nothing all three);
  they are performed by the library's \<^verbatim>\<open>predict\<close>; and the model deployed has the schema
  \<^verbatim>\<open>schema\<close> in its environment variable. The schema in the third payload is \<^verbatim>\<open>schema\<close>
  with the input columns at positions 0 and 1 (\<^verbatim>\<open>sex\<close> and \<^verbatim>\<open>length\<close>) swapped and the same
  output; its data are the data of the second request with entries 0 and 1 swapped; so
  reading its data under its own schema gives the same record of named values as reading
  the second request's data under the schema of the environment variable.
\<close>

theorem override_is_consistent_permutation:
  assumes "notebook X s = (r, s')"
  shows "(\<exists>evs ep sess. trace s' = trace s @ evs
        \<and> prefix (filter (\<lambda>c. label c = ''Predictor.predict'') (map fst evs))
            [ C_predict (Predictor ep sess CSVSerializer) (JString payload_csv),
              C_predict (Predictor ep sess JSONSerializer) payload_json,
              C_predict (Predictor ep sess JSONSerializer) payload_with_schema ]
        \<and> (\<forall>v. r = Inr v \<longrightarrow> filter (\<lambda>c. label c = ''Predictor.predict'') (map fst evs) =
            [ C_predict (Predictor ep sess CSVSerializer) (JString payload_csv),
              C_predict (Predictor ep sess JSONSerializer) payload_json,
              C_predict (Predictor ep sess JSONSerializer) payload_with_schema ])
        \<and> replay X evs (disk s, cloud s) = Some (disk s', cloud s')
        \<and> (\<forall>ev\<in>set evs. \<forall>m n t e. fst ev = C_deploy m n t e \<longrightarrow>
              model_env m = [(''SAGEMAKER_SPARKML_SCHEMA'', ext_json_dumps X schema 2)]))
   \<and> get_item payload_with_schema ''schema'' =
       Some (JObject [ (''input'', JArray (swap_entries 0 1 (input_columns schema))),
                       (''output'', the (get_item schema ''output'')) ])
   \<and> map column_name (take 2 (input_columns schema)) = [''sex'', ''length'']
   \<and> payload_data payload_with_schema = swap_entries 0 1 (payload_data payload_json)
   \<and> read_record (the (get_item payload_with_schema ''schema'')) (payload_data payload_with_schema)
       = read_record schema (payload_data payload_json)"
proof (intro conjI)
  from notebook_requests[OF assms] obtain evs ep sess where a:
    "trace s' = trace s @ evs"
    "prefix (filter (\<lambda>c. label c = ''Predictor.predict'') (map fst evs))
            [ C_predict (Predictor ep sess CSVSerializer) (JString payload_csv),
              C_predict (Predictor ep sess JSONSerializer) payload_json,
              C_predict (Predictor ep sess JSONSerializer) payload_with_schema ]"
    "\<forall>v. r = Inr v \<longrightarrow> filter (\<lambda>c. label c = ''Predictor.predict'') (map fst evs) =
            [ C_predict (Predictor ep sess CSVSerializer) (JString payload_csv),
              C_predict (Predictor ep sess JSONSerializer) payload_json,
              C_predict (Predictor ep sess JSONSerializer) payload_with_schema ]"
    by blast
  from notebook_conforms[OF assms] obtain ep' evs' where e:
    "trace s' = trace s @ evs'"
    "list_all (\<lambda>ev. call_ok X ep' (fst ev)) evs'"
    "replay X evs' (disk s, cloud s) = Some (disk s', cloud s')"
    unfolding conforms_def by blast
  from a(1) e(1) have same: "evs' = evs" by simp
  have ok: "\<And>ev. ev \<in> set evs \<Longrightarrow> call_ok X ep' (fst ev)"
    using e(2) unfolding same by (simp add: list_all_iff)
  have env: "\<forall>ev\<in>set evs. \<forall>m n t e. fst ev = C_deploy m n t e \<longrightarrow>
              model_env m = [(''SAGEMAKER_SPARKML_SCHEMA'', ext_json_dumps X schema 2)]"
    using ok by fastforce
  have rp: "replay X evs (disk s, cloud s) = Some (disk s', cloud s')"
    using e(3) unfolding same .
  from a rp env
  show "\<exists>evs ep sess. trace s' = trace s @ evs
        \<and> prefix (filter (\<lambda>c. label c = ''Predictor.predict'') (map fst evs))
            [ C_predict (Predictor ep sess CSVSerializer) (JString payload_csv),
              C_predict (Predictor ep sess JSONSerializer) payload_json,
              C_predict (Predictor ep sess JSONSerializer) payload_with_schema ]
        \<and> (\<forall>v. r = Inr v \<longrightarrow> filter (\<lambda>c. label c = ''Predictor.predict'') (map fst evs) =
            [ C_predict (Predictor ep sess CSVSerializer) (JString payload_csv),
              C_predict (Predictor ep sess JSONSerializer) payload_json,
              C_predict (Predictor ep sess JSONSerializer) payload_with_schema ])
        \<and> replay X evs (disk s, cloud s) = Some (disk s', cloud s')
        \<and> (\<forall>ev\<in>set evs. \<forall>m n t e. fst ev = C_deploy m n t e \<longrightarrow>
              model_env m = [(''SAGEMAKER_SPARKML_SCHEMA'', ext_json_dumps X schema 2)])"
    by (intro exI[of _ evs] exI[of _ ep] exI[of _ sess] conjI)
next
  show "get_item payload_with_schema ''schema'' =
     Some (JObject [ (''input'', JArray (swap_entries 0 1 (input_columns schema))),
                     (''output'', the (get_item schema ''output'')) ])"
    by (simp add: payload_with_schema_def schema_def swap_entries_def)
next
  show "map column_name (take 2 (input_columns schema)) = [''sex'', ''length'']"
    by (simp add: schema_def)
next
  show "payload_data payload_with_schema = swap_entries 0 1 (payload_data payload_json)"
    by (simp add: payload_with_schema_def payload_json_def swap_entries_def)
next
  show "read_record (the (get_item payload_with_schema ''schema'')) (payload_data payload_with_schema)
       = read_record schema (payload_data payload_json)"
    by (rule ext) (simp add: payload_with_schema_def payload_json_def schema_def read_record_def)
qed

theorem override_is_consistent_permutation_witness:
  "(\<exists>ep sess. filter (\<lambda>c. label c = ''Predictor.predict'')
        (map fst (trace (snd (notebook demo_externals (demo_world demo_disk))))) =
            [ C_predict (Predictor ep sess CSVSerializer) (JString payload_csv),
              C_predict (Predictor ep sess JSONSerializer) payload_json,
              C_predict (Predictor ep sess JSONSerializer) payload_with_schema ])
   \<and> read_record (the (get_item payload_with_schema ''schema'')) (payload_data payload_with_schema)
       ''sex'' = Some (JString ''F'')
   \<and> read_record schema (payload_data payload_json) ''length'' = Some (JNumber (515 / 1000))"
proof -
  note th = override_is_consistent_permutation[OF run_from_fst[OF demo_run]]
  from th[THEN conjunct1] obtain evs ep sess where
    t: "trace (snd (notebook demo_externals (demo_world demo_disk)))
          = trace (demo_world demo_disk) @ evs"
    and f: "filter (\<lambda>c. label c = ''Predictor.predict'') (map fst evs) =
            [ C_predict (Predictor ep sess CSVSerializer) (JString payload_csv),
              C_predict (Predictor ep sess JSONSerializer) payload_json,
              C_predict (Predictor ep sess JSONSerializer) payload_with_schema ]"
    by (elim exE conjE) simp
  have one: "\<exists>ep sess. filter (\<lambda>c. label c = ''Predictor.predict'')
        (map fst (trace (snd (notebook demo_externals (demo_world demo_disk))))) =
            [ C_predict (Predictor ep sess CSVSerializer) (JString payload_csv),
              C_predict (Predictor ep sess JSONSerializer) payload_json,
              C_predict (Predictor ep sess JSONSerializer) payload_with_schema ]"
    using t f by (intro exI[of _ ep] exI[of _ sess]) (simp add: demo_world_def)
  have eq: "read_record (the (get_item payload_with_schema ''schema''))
              (payload_data payload_with_schema)
            = read_record schema (payload_data payload_json)"
    by (rule th[THEN conjunct2, THEN conjunct2, THEN conjunct2, THEN conjunct2])
  have "read_record schema (payload_data payload_json) ''sex'' = Some (JString ''F'')"
    and "read_record schema (payload_data payload_json) ''length'' = Some (JNumber (515 / 1000))"
    by (simp_all add: payload_json_def schema_def read_record_def)
  with eq one show ?thesis by simp
qed









end
